theory Spec2Isabelle
  imports Main "HOL-Library.Word" "HOL-Library.Code_Target_Numeral"
begin

unbundle bit_operations_syntax


section \<open>The format catalog\<close>

text \<open>
  The device formats the driver names (\<open>enum _snd_pcm_format\<close> of the sound library)
  and the sample encodings of the host (\<open>sox_encoding_t\<close>). Both enumerations have
  more members than the driver mentions; the remaining ones are kept as
  \<open>SND_PCM_FORMAT_OTHER\<close> and \<open>SOX_ENCODING_OTHER\<close> with their numeric value.
  In the sound library \<open>SND_PCM_FORMAT_S8\<close> is the value 0, which is also the
  device format written in the end-of-list entry of the table.
\<close>

datatype snd_pcm_format =
    SND_PCM_FORMAT_S8
  | SND_PCM_FORMAT_U8
  | SND_PCM_FORMAT_S16
  | SND_PCM_FORMAT_U16
  | SND_PCM_FORMAT_S24
  | SND_PCM_FORMAT_U24
  | SND_PCM_FORMAT_S24_3LE
  | SND_PCM_FORMAT_S32
  | SND_PCM_FORMAT_U32
  | SND_PCM_FORMAT_OTHER nat

datatype sox_encoding_t =
    SOX_ENCODING_UNKNOWN
  | SOX_ENCODING_SIGN2
  | SOX_ENCODING_UNSIGNED
  | SOX_ENCODING_OTHER nat

record format_entry =
  bits :: nat
  alsa_fmt :: snd_pcm_format
  bytes :: nat
  enc :: sox_encoding_t

definition formats :: "format_entry list" where
  "formats =
    [ \<lparr> bits = 8, alsa_fmt = SND_PCM_FORMAT_S8, bytes = 1, enc = SOX_ENCODING_SIGN2 \<rparr>,
      \<lparr> bits = 8, alsa_fmt = SND_PCM_FORMAT_U8, bytes = 1, enc = SOX_ENCODING_UNSIGNED \<rparr>,
      \<lparr> bits = 16, alsa_fmt = SND_PCM_FORMAT_S16, bytes = 2, enc = SOX_ENCODING_SIGN2 \<rparr>,
      \<lparr> bits = 16, alsa_fmt = SND_PCM_FORMAT_U16, bytes = 2, enc = SOX_ENCODING_UNSIGNED \<rparr>,
      \<lparr> bits = 24, alsa_fmt = SND_PCM_FORMAT_S24, bytes = 4, enc = SOX_ENCODING_SIGN2 \<rparr>,
      \<lparr> bits = 24, alsa_fmt = SND_PCM_FORMAT_U24, bytes = 4, enc = SOX_ENCODING_UNSIGNED \<rparr>,
      \<lparr> bits = 24, alsa_fmt = SND_PCM_FORMAT_S24_3LE, bytes = 3, enc = SOX_ENCODING_SIGN2 \<rparr>,
      \<lparr> bits = 32, alsa_fmt = SND_PCM_FORMAT_S32, bytes = 4, enc = SOX_ENCODING_SIGN2 \<rparr>,
      \<lparr> bits = 32, alsa_fmt = SND_PCM_FORMAT_U32, bytes = 4, enc = SOX_ENCODING_UNSIGNED \<rparr>,
      \<lparr> bits = 0, alsa_fmt = SND_PCM_FORMAT_S8, bytes = 0, enc = SOX_ENCODING_UNKNOWN \<rparr> ]"

text \<open>
  A capability mask answers \<open>snd_pcm_format_mask_test\<close> for every device format.
\<close>

type_synonym snd_pcm_format_mask_t = "snd_pcm_format \<Rightarrow> bool"

definition mask_test :: "snd_pcm_format_mask_t \<Rightarrow> nat \<Rightarrow> bool" where
  "mask_test mask' i = mask' (alsa_fmt (formats ! i))"

section \<open>select\_format\<close>

text \<open>
  \<open>while (formats[from].bits < *nbits_ && formats[from].bits != 0) from++;\<close>
  The scan is stopped by the end-of-list entry; the bound on the index only makes
  the recursion well founded and is never the reason the scan stops
  (lemma \<open>find_from_stops_in_table\<close>).
\<close>

function find_from :: "nat \<Rightarrow> nat \<Rightarrow> nat" where
  "find_from nbits from =
     (if from < length formats \<and> bits (formats ! from) < nbits \<and> bits (formats ! from) \<noteq> 0
      then find_from nbits (from + 1) else from)"
  by pat_completeness auto
termination
  by (relation "measure (\<lambda>(nbits, from). length formats - from)") auto

declare find_from.simps [simp del]

text \<open>\<open>for (to = from; formats[to].bits != 0; to++) ;\<close>\<close>

function find_end :: "nat \<Rightarrow> nat" where
  "find_end to =
     (if to < length formats \<and> bits (formats ! to) \<noteq> 0 then find_end (to + 1) else to)"
  by pat_completeness auto
termination
  by (relation "measure (\<lambda>to. length formats - to)") auto

declare find_end.simps [simp del]

text \<open>
  The inner \<open>for (i = from; i < to; i++)\<close> loop with its \<open>break\<close>; the candidate
  is an \<open>int\<close> with \<open>-1\<close> for none, as in the source.
\<close>

function scan :: "sox_encoding_t \<Rightarrow> snd_pcm_format_mask_t \<Rightarrow> nat \<Rightarrow> nat \<Rightarrow> int \<Rightarrow> int" where
  "scan encoding mask' i to cand =
     (if i < to then
        (if mask' (alsa_fmt (formats ! i)) then
           (if enc (formats ! i) = encoding then int i
            else scan encoding mask' (i + 1) to (if cand = -1 then int i else cand))
         else scan encoding mask' (i + 1) to cand)
      else cand)"
  by pat_completeness auto
termination
  by (relation "measure (\<lambda>(encoding, mask', i, to, cand). to - i)") auto

declare scan.simps [simp del]

text \<open>\<open>while (from && formats[from-1].bits == bits_next) from--;\<close>\<close>

function step_back :: "nat \<Rightarrow> nat \<Rightarrow> nat" where
  "step_back bits_next from =
     (if from \<noteq> 0 \<and> bits (formats ! (from - 1)) = bits_next
      then step_back bits_next (from - 1) else from)"
  by pat_completeness auto
termination
  by (relation "measure (\<lambda>(bits_next, from). from)") auto

declare step_back.simps [simp del]

lemma step_back_le: "step_back b frm \<le> frm"
proof (induction b frm rule: step_back.induct)
  case (1 b frm)
  show ?case
  proof (cases "frm \<noteq> 0 \<and> bits (formats ! (frm - 1)) = b")
    case True
    with 1 have "step_back b (frm - 1) \<le> frm - 1" by simp
    with True show ?thesis by (subst step_back.simps) simp
  next
    case False
    then show ?thesis by (subst step_back.simps) auto
  qed
qed

lemma step_back_less:
  "0 < frm \<Longrightarrow> step_back (bits (formats ! (frm - 1))) frm < frm"
proof -
  assume pos: "0 < frm"
  have "step_back (bits (formats ! (frm - 1))) frm
          = step_back (bits (formats ! (frm - 1))) (frm - 1)"
    using pos by (subst step_back.simps) simp
  also have "\<dots> \<le> frm - 1" by (rule step_back_le)
  finally show ?thesis using pos by simp
qed

text \<open>The outer \<open>while (to > 0)\<close> loop.\<close>

function descend :: "sox_encoding_t \<Rightarrow> snd_pcm_format_mask_t \<Rightarrow> nat \<Rightarrow> nat \<Rightarrow> int \<Rightarrow> int" where
  "descend encoding mask' from to cand =
     (if to > 0 then
        (let cand' = scan encoding mask' from to cand in
         if cand' \<noteq> -1 then cand'
         else
           (let to' = from;
                bits_next = (if from > 0 then bits (formats ! (from - 1)) else 0);
                from' = step_back bits_next from
            in descend encoding mask' from' to' cand'))
      else cand)"
  by pat_completeness auto
termination
proof (relation "measure (\<lambda>(encoding, mask', from, to, cand). 2 * from + (if to > 0 then 1 else 0))",
    goal_cases)
  case 1
  show ?case by simp
next
  case (2 encoding mask' frm to cand x xa xb xc)
  show ?case
  proof (cases "0 < frm")
    case True
    from step_back_less [OF True] 2 True show ?thesis by auto
  next
    case False
    with 2 show ?thesis by (simp add: step_back.simps [of _ 0])
  qed
qed

declare descend.simps [simp del]

text \<open>
  \<open>select_format\<close> reads and writes \<open>*encoding_\<close>, \<open>*nbits_\<close> and \<open>*format\<close>;
  the model takes their values and returns the return code with their new values.
\<close>

definition select_format ::
  "sox_encoding_t \<Rightarrow> nat \<Rightarrow> snd_pcm_format_mask_t \<Rightarrow> nat \<Rightarrow> int \<times> sox_encoding_t \<times> nat \<times> nat" where
  "select_format encoding nbits mask' format =
     (let from = find_from nbits 0;
          to = find_end from;
          cand = descend encoding mask' from to (-1)
      in if cand = -1 then (-1, encoding, nbits, format)
         else if nbits \<noteq> bits (formats ! nat cand) \<or> encoding \<noteq> enc (formats ! nat cand)
              then (0, enc (formats ! nat cand), bits (formats ! nat cand), nat cand)
              else (0, encoding, nbits, nat cand))"

text \<open>Two capability masks used as examples: a device that supports only 16-bit
  unsigned and the two 8-bit formats, and a device that supports nothing.\<close>

definition only_u16_s8_u8 :: snd_pcm_format_mask_t where
  "only_u16_s8_u8 f =
     (f = SND_PCM_FORMAT_U16 \<or> f = SND_PCM_FORMAT_S8 \<or> f = SND_PCM_FORMAT_U8)"

definition no_format :: snd_pcm_format_mask_t where
  "no_format f = False"


section \<open>The sample codec\<close>

text \<open>
  The canonical sample \<open>sox_sample_t\<close> is a signed 32-bit integer, a byte of the
  buffers is an \<open>unsigned char\<close>, and the clip counter \<open>ft->clips\<close> only counts.
\<close>

type_synonym sox_sample_t = "32 word"
type_synonym byte = "8 word"

subsection \<open>Conversion macros\<close>

text \<open>
  Modelled from the spec: the sample conversion macros \<open>SOX_SAMPLE_TO_SIGNED_8BIT\<close>,
  \<open>SOX_SIGNED_8BIT_TO_SAMPLE\<close> and their 16, 24 and 32-bit and unsigned siblings,
  with \<open>SOX_SAMPLE_MAX\<close>, \<open>SOX_SAMPLE_NEG\<close>, \<open>SOX_INT_MAX\<close> and \<open>SOX_INT_MIN\<close>,
  come from the host's public header, which is not among the source files. The spec
  says that decoding widens a device sample to canonical precision with sign or zero
  extension, and that encoding narrows a canonical sample to the device width with
  saturation, counting each saturated sample in the clip counter. Written out for the
  32-bit canonical sample: decoding converts the device sample to 32 bits and shifts
  it left by \<open>32 - bits\<close> (unsigned layouts then flip the sign bit); encoding
  saturates to the largest device value above \<open>SOX_SAMPLE_MAX - 2 ^ (31 - bits)\<close>
  and otherwise adds the rounding half step \<open>2 ^ (31 - bits)\<close> and shifts right by
  \<open>32 - bits\<close> (unsigned layouts flip the device sign bit). The 24-bit device
  sample types are 32 bits wide.
\<close>

definition SOX_SAMPLE_MAX :: sox_sample_t where
  "SOX_SAMPLE_MAX = 0x7FFFFFFF"

definition SOX_SAMPLE_NEG :: sox_sample_t where
  "SOX_SAMPLE_NEG = 0x80000000"

definition SOX_INT_MAX :: "nat \<Rightarrow> 32 word" where
  "SOX_INT_MAX b = drop_bit (33 - b) (- 1)"

definition SOX_INT_MIN :: "nat \<Rightarrow> 32 word" where
  "SOX_INT_MIN b = push_bit (b - 1) 1"

definition SOX_SAMPLE_TO_SIGNED :: "nat \<Rightarrow> sox_sample_t \<Rightarrow> nat \<Rightarrow> 32 word \<times> nat" where
  "SOX_SAMPLE_TO_SIGNED b d clips =
     (if SOX_SAMPLE_MAX - push_bit (31 - b) 1 <s d then (SOX_INT_MAX b, clips + 1)
      else (drop_bit (32 - b) (d + push_bit (31 - b) 1), clips))"

definition SOX_SIGNED_TO_SAMPLE :: "nat \<Rightarrow> 32 word \<Rightarrow> sox_sample_t" where
  "SOX_SIGNED_TO_SAMPLE b d = push_bit (32 - b) d"

definition SOX_UNSIGNED_TO_SAMPLE :: "nat \<Rightarrow> 32 word \<Rightarrow> sox_sample_t" where
  "SOX_UNSIGNED_TO_SAMPLE b d = SOX_SIGNED_TO_SAMPLE b d XOR SOX_SAMPLE_NEG"

definition SOX_SAMPLE_TO_SIGNED_8BIT :: "sox_sample_t \<Rightarrow> nat \<Rightarrow> 8 word \<times> nat" where
  "SOX_SAMPLE_TO_SIGNED_8BIT d clips =
     (case SOX_SAMPLE_TO_SIGNED 8 d clips of (v, clips') \<Rightarrow> (ucast v, clips'))"

definition SOX_SAMPLE_TO_UNSIGNED_8BIT :: "sox_sample_t \<Rightarrow> nat \<Rightarrow> 8 word \<times> nat" where
  "SOX_SAMPLE_TO_UNSIGNED_8BIT d clips =
     (case SOX_SAMPLE_TO_SIGNED_8BIT d clips of (v, clips') \<Rightarrow> (v XOR ucast (SOX_INT_MIN 8), clips'))"

definition SOX_SAMPLE_TO_SIGNED_16BIT :: "sox_sample_t \<Rightarrow> nat \<Rightarrow> 16 word \<times> nat" where
  "SOX_SAMPLE_TO_SIGNED_16BIT d clips =
     (case SOX_SAMPLE_TO_SIGNED 16 d clips of (v, clips') \<Rightarrow> (ucast v, clips'))"

definition SOX_SAMPLE_TO_UNSIGNED_16BIT :: "sox_sample_t \<Rightarrow> nat \<Rightarrow> 16 word \<times> nat" where
  "SOX_SAMPLE_TO_UNSIGNED_16BIT d clips =
     (case SOX_SAMPLE_TO_SIGNED_16BIT d clips of (v, clips') \<Rightarrow> (v XOR ucast (SOX_INT_MIN 16), clips'))"

definition SOX_SAMPLE_TO_SIGNED_24BIT :: "sox_sample_t \<Rightarrow> nat \<Rightarrow> 32 word \<times> nat" where
  "SOX_SAMPLE_TO_SIGNED_24BIT d clips = SOX_SAMPLE_TO_SIGNED 24 d clips"

definition SOX_SAMPLE_TO_UNSIGNED_24BIT :: "sox_sample_t \<Rightarrow> nat \<Rightarrow> 32 word \<times> nat" where
  "SOX_SAMPLE_TO_UNSIGNED_24BIT d clips =
     (case SOX_SAMPLE_TO_SIGNED_24BIT d clips of (v, clips') \<Rightarrow> (v XOR SOX_INT_MIN 24, clips'))"

definition SOX_SAMPLE_TO_SIGNED_32BIT :: "sox_sample_t \<Rightarrow> nat \<Rightarrow> 32 word \<times> nat" where
  "SOX_SAMPLE_TO_SIGNED_32BIT d clips = (d, clips)"

definition SOX_SAMPLE_TO_UNSIGNED_32BIT :: "sox_sample_t \<Rightarrow> nat \<Rightarrow> 32 word \<times> nat" where
  "SOX_SAMPLE_TO_UNSIGNED_32BIT d clips = (d XOR SOX_SAMPLE_NEG, clips)"

definition SOX_SIGNED_8BIT_TO_SAMPLE :: "8 word \<Rightarrow> sox_sample_t" where
  "SOX_SIGNED_8BIT_TO_SAMPLE d = SOX_SIGNED_TO_SAMPLE 8 (scast d)"

definition SOX_UNSIGNED_8BIT_TO_SAMPLE :: "8 word \<Rightarrow> sox_sample_t" where
  "SOX_UNSIGNED_8BIT_TO_SAMPLE d = SOX_UNSIGNED_TO_SAMPLE 8 (ucast d)"

definition SOX_SIGNED_16BIT_TO_SAMPLE :: "16 word \<Rightarrow> sox_sample_t" where
  "SOX_SIGNED_16BIT_TO_SAMPLE d = SOX_SIGNED_TO_SAMPLE 16 (scast d)"

definition SOX_UNSIGNED_16BIT_TO_SAMPLE :: "16 word \<Rightarrow> sox_sample_t" where
  "SOX_UNSIGNED_16BIT_TO_SAMPLE d = SOX_UNSIGNED_TO_SAMPLE 16 (ucast d)"

definition SOX_SIGNED_24BIT_TO_SAMPLE :: "32 word \<Rightarrow> sox_sample_t" where
  "SOX_SIGNED_24BIT_TO_SAMPLE d = SOX_SIGNED_TO_SAMPLE 24 d"

definition SOX_UNSIGNED_24BIT_TO_SAMPLE :: "32 word \<Rightarrow> sox_sample_t" where
  "SOX_UNSIGNED_24BIT_TO_SAMPLE d = SOX_UNSIGNED_TO_SAMPLE 24 d"

definition SOX_SIGNED_32BIT_TO_SAMPLE :: "32 word \<Rightarrow> sox_sample_t" where
  "SOX_SIGNED_32BIT_TO_SAMPLE d = d"

definition SOX_UNSIGNED_32BIT_TO_SAMPLE :: "32 word \<Rightarrow> sox_sample_t" where
  "SOX_UNSIGNED_32BIT_TO_SAMPLE d = d XOR SOX_SAMPLE_NEG"

text \<open>
  Modelled from the spec: \<open>lsx_swapw\<close>, the byte-swap transform of the 16-bit paths,
  is declared in a header that is not among the source files; it exchanges the two
  bytes of a 16-bit value.
\<close>

definition lsx_swapw :: "16 word \<Rightarrow> 16 word" where
  "lsx_swapw w = drop_bit 8 w OR push_bit 8 w"

subsection \<open>Typed access to the byte buffer\<close>

text \<open>
  \<open>p->buf\<close> is a \<open>char *\<close> that the codec reads and writes through \<open>int16_t *\<close>,
  \<open>int32_t *\<close> and similar pointers, so the bytes of a 16 or 32-bit element lie in
  the host's byte order (\<open>host_be\<close> is true on a big-endian host). The loads are
  \<open>None\<close> when fewer bytes than the element needs are left: the source would read
  past the buffer.
\<close>

definition store16 :: "bool \<Rightarrow> 16 word \<Rightarrow> byte list" where
  "store16 host_be w =
     (if host_be then [ucast (drop_bit 8 w), ucast w] else [ucast w, ucast (drop_bit 8 w)])"

definition store32 :: "bool \<Rightarrow> 32 word \<Rightarrow> byte list" where
  "store32 host_be w =
     (if host_be then [ucast (drop_bit 24 w), ucast (drop_bit 16 w), ucast (drop_bit 8 w), ucast w]
      else [ucast w, ucast (drop_bit 8 w), ucast (drop_bit 16 w), ucast (drop_bit 24 w)])"

fun load8 :: "byte list \<Rightarrow> 8 word option" where
  "load8 (a # rest) = Some a"
| "load8 [] = None"

fun load16 :: "bool \<Rightarrow> byte list \<Rightarrow> 16 word option" where
  "load16 host_be (a # b # rest) =
     Some (if host_be then push_bit 8 (ucast a) OR ucast b else ucast a OR push_bit 8 (ucast b))"
| "load16 host_be bs = None"

fun load32 :: "bool \<Rightarrow> byte list \<Rightarrow> 32 word option" where
  "load32 host_be (a # b # c # d # rest) =
     Some (if host_be
           then push_bit 24 (ucast a) OR push_bit 16 (ucast b) OR push_bit 8 (ucast c) OR ucast d
           else ucast a OR push_bit 8 (ucast b) OR push_bit 16 (ucast c) OR push_bit 24 (ucast d))"
| "load32 host_be bs = None"

subsection \<open>One sample of each layout\<close>

text \<open>
  The bodies of the \<open>while (i--)\<close> loops of \<open>write_\<close>: the bytes stored for one
  canonical sample and the new clip counter.
\<close>

definition put_S8 :: "sox_sample_t \<Rightarrow> nat \<Rightarrow> byte list \<times> nat" where
  "put_S8 x clips = (case SOX_SAMPLE_TO_SIGNED_8BIT x clips of (v, c) \<Rightarrow> ([v], c))"

definition put_U8 :: "sox_sample_t \<Rightarrow> nat \<Rightarrow> byte list \<times> nat" where
  "put_U8 x clips = (case SOX_SAMPLE_TO_UNSIGNED_8BIT x clips of (v, c) \<Rightarrow> ([v], c))"

definition put_S16 :: "bool \<Rightarrow> bool \<Rightarrow> sox_sample_t \<Rightarrow> nat \<Rightarrow> byte list \<times> nat" where
  "put_S16 host_be reverse_bytes x clips =
     (case SOX_SAMPLE_TO_SIGNED_16BIT x clips of
        (v, c) \<Rightarrow> (store16 host_be (if reverse_bytes then lsx_swapw v else v), c))"

definition put_U16 :: "bool \<Rightarrow> bool \<Rightarrow> sox_sample_t \<Rightarrow> nat \<Rightarrow> byte list \<times> nat" where
  "put_U16 host_be reverse_bytes x clips =
     (case SOX_SAMPLE_TO_UNSIGNED_16BIT x clips of
        (v, c) \<Rightarrow> (store16 host_be (if reverse_bytes then lsx_swapw v else v), c))"

definition put_S24 :: "bool \<Rightarrow> sox_sample_t \<Rightarrow> nat \<Rightarrow> byte list \<times> nat" where
  "put_S24 host_be x clips =
     (case SOX_SAMPLE_TO_SIGNED_24BIT x clips of (v, c) \<Rightarrow> (store32 host_be v, c))"

definition put_S24_3LE :: "sox_sample_t \<Rightarrow> nat \<Rightarrow> byte list \<times> nat" where
  "put_S24_3LE x clips =
     (case SOX_SAMPLE_TO_SIGNED_24BIT x clips of
        (temp, c) \<Rightarrow>
          ([ucast (temp AND 0x000000FF),
            ucast (drop_bit 8 (temp AND 0x0000FF00)),
            ucast (drop_bit 16 (temp AND 0x00FF0000))], c))"

definition put_U24 :: "bool \<Rightarrow> sox_sample_t \<Rightarrow> nat \<Rightarrow> byte list \<times> nat" where
  "put_U24 host_be x clips =
     (case SOX_SAMPLE_TO_UNSIGNED_24BIT x clips of (v, c) \<Rightarrow> (store32 host_be v, c))"

definition put_S32 :: "bool \<Rightarrow> sox_sample_t \<Rightarrow> nat \<Rightarrow> byte list \<times> nat" where
  "put_S32 host_be x clips =
     (case SOX_SAMPLE_TO_SIGNED_32BIT x clips of (v, c) \<Rightarrow> (store32 host_be v, c))"

definition put_U32 :: "bool \<Rightarrow> sox_sample_t \<Rightarrow> nat \<Rightarrow> byte list \<times> nat" where
  "put_U32 host_be x clips =
     (case SOX_SAMPLE_TO_UNSIGNED_32BIT x clips of (v, c) \<Rightarrow> (store32 host_be v, c))"

text \<open>
  The bodies of the \<open>while (i--)\<close> loops of \<open>read_\<close>: the canonical sample read from
  the bytes at the read pointer.
\<close>

definition get_S8 :: "byte list \<Rightarrow> sox_sample_t option" where
  "get_S8 bs = map_option SOX_SIGNED_8BIT_TO_SAMPLE (load8 bs)"

definition get_U8 :: "byte list \<Rightarrow> sox_sample_t option" where
  "get_U8 bs = map_option SOX_UNSIGNED_8BIT_TO_SAMPLE (load8 bs)"

definition get_S16 :: "bool \<Rightarrow> bool \<Rightarrow> byte list \<Rightarrow> sox_sample_t option" where
  "get_S16 host_be reverse_bytes bs =
     map_option (\<lambda>v. SOX_SIGNED_16BIT_TO_SAMPLE (if reverse_bytes then lsx_swapw v else v))
       (load16 host_be bs)"

definition get_U16 :: "bool \<Rightarrow> bool \<Rightarrow> byte list \<Rightarrow> sox_sample_t option" where
  "get_U16 host_be reverse_bytes bs =
     map_option (\<lambda>v. SOX_UNSIGNED_16BIT_TO_SAMPLE (if reverse_bytes then lsx_swapw v else v))
       (load16 host_be bs)"

definition get_S24 :: "bool \<Rightarrow> byte list \<Rightarrow> sox_sample_t option" where
  "get_S24 host_be bs = map_option SOX_SIGNED_24BIT_TO_SAMPLE (load32 host_be bs)"

fun get_S24_3LE :: "byte list \<Rightarrow> sox_sample_t option" where
  "get_S24_3LE (b0 # b1 # b2 # rest) =
     Some (SOX_SIGNED_24BIT_TO_SAMPLE
             (ucast b0 OR push_bit 8 (ucast b1) OR push_bit 16 (ucast b2)))"
| "get_S24_3LE bs = None"

definition get_U24 :: "bool \<Rightarrow> byte list \<Rightarrow> sox_sample_t option" where
  "get_U24 host_be bs = map_option SOX_UNSIGNED_24BIT_TO_SAMPLE (load32 host_be bs)"

definition get_S32 :: "bool \<Rightarrow> byte list \<Rightarrow> sox_sample_t option" where
  "get_S32 host_be bs = map_option SOX_SIGNED_32BIT_TO_SAMPLE (load32 host_be bs)"

definition get_U32 :: "bool \<Rightarrow> byte list \<Rightarrow> sox_sample_t option" where
  "get_U32 host_be bs = map_option SOX_UNSIGNED_32BIT_TO_SAMPLE (load32 host_be bs)"

text \<open>
  The two \<open>switch (formats[p->format].alsa_fmt)\<close> statements, for one sample: the
  \<open>default\<close> branch (``invalid format'') is \<open>None\<close>.
\<close>

fun encode_sample ::
  "bool \<Rightarrow> bool \<Rightarrow> snd_pcm_format \<Rightarrow> (sox_sample_t \<Rightarrow> nat \<Rightarrow> byte list \<times> nat) option" where
  "encode_sample host_be reverse_bytes SND_PCM_FORMAT_S8 = Some put_S8"
| "encode_sample host_be reverse_bytes SND_PCM_FORMAT_U8 = Some put_U8"
| "encode_sample host_be reverse_bytes SND_PCM_FORMAT_S16 = Some (put_S16 host_be reverse_bytes)"
| "encode_sample host_be reverse_bytes SND_PCM_FORMAT_U16 = Some (put_U16 host_be reverse_bytes)"
| "encode_sample host_be reverse_bytes SND_PCM_FORMAT_S24 = Some (put_S24 host_be)"
| "encode_sample host_be reverse_bytes SND_PCM_FORMAT_S24_3LE = Some put_S24_3LE"
| "encode_sample host_be reverse_bytes SND_PCM_FORMAT_U24 = Some (put_U24 host_be)"
| "encode_sample host_be reverse_bytes SND_PCM_FORMAT_S32 = Some (put_S32 host_be)"
| "encode_sample host_be reverse_bytes SND_PCM_FORMAT_U32 = Some (put_U32 host_be)"
| "encode_sample host_be reverse_bytes (SND_PCM_FORMAT_OTHER v) = None"

fun decode_sample ::
  "bool \<Rightarrow> bool \<Rightarrow> snd_pcm_format \<Rightarrow> (byte list \<Rightarrow> sox_sample_t option) option" where
  "decode_sample host_be reverse_bytes SND_PCM_FORMAT_S8 = Some get_S8"
| "decode_sample host_be reverse_bytes SND_PCM_FORMAT_U8 = Some get_U8"
| "decode_sample host_be reverse_bytes SND_PCM_FORMAT_S16 = Some (get_S16 host_be reverse_bytes)"
| "decode_sample host_be reverse_bytes SND_PCM_FORMAT_U16 = Some (get_U16 host_be reverse_bytes)"
| "decode_sample host_be reverse_bytes SND_PCM_FORMAT_S24 = Some (get_S24 host_be)"
| "decode_sample host_be reverse_bytes SND_PCM_FORMAT_S24_3LE = Some get_S24_3LE"
| "decode_sample host_be reverse_bytes SND_PCM_FORMAT_U24 = Some (get_U24 host_be)"
| "decode_sample host_be reverse_bytes SND_PCM_FORMAT_S32 = Some (get_S32 host_be)"
| "decode_sample host_be reverse_bytes SND_PCM_FORMAT_U32 = Some (get_U32 host_be)"
| "decode_sample host_be reverse_bytes (SND_PCM_FORMAT_OTHER v) = None"

text \<open>
  The loops themselves. \<open>encode_loop\<close> stores the samples one after the other from
  the start of the buffer; \<open>decode_loop\<close> reads \<open>i\<close> samples of \<open>width\<close> bytes each
  from the start of the buffer and is \<open>None\<close> when the buffer ends first.
\<close>

fun encode_loop ::
  "(sox_sample_t \<Rightarrow> nat \<Rightarrow> byte list \<times> nat) \<Rightarrow> sox_sample_t list \<Rightarrow> nat \<Rightarrow> byte list \<times> nat" where
  "encode_loop put [] clips = ([], clips)"
| "encode_loop put (x # xs) clips =
     (case put x clips of
        (bs, clips1) \<Rightarrow> (case encode_loop put xs clips1 of (rest, clips2) \<Rightarrow> (bs @ rest, clips2)))"

fun decode_loop ::
  "(byte list \<Rightarrow> sox_sample_t option) \<Rightarrow> nat \<Rightarrow> nat \<Rightarrow> byte list \<Rightarrow> sox_sample_t list option" where
  "decode_loop get width 0 bs = Some []"
| "decode_loop get width (Suc i) bs =
     (case get bs of
        None \<Rightarrow> None
      | Some x \<Rightarrow> map_option ((#) x) (decode_loop get width i (drop width bs)))"

section \<open>The stream session\<close>

subsection \<open>State\<close>

text \<open>
  The host's error codes that the driver uses, and the text that goes with an error
  (the source formats it with \<open>snd_strerror\<close>; the model keeps the name of the failed
  call and the device's error code instead of the formatted text).
\<close>

datatype sox_error_t = SOX_SUCCESS | SOX_EOF | SOX_EFMT | SOX_EPERM

datatype error_text =
    No_error_text
  | Call_error string int
  | Device_error int
  | Buffer_too_small
  | Invalid_format

datatype file_mode = Mode_r | Mode_w

text \<open>The calls into the sound library, in the order in which the driver makes them.\<close>

datatype alsa_call =
    Snd_pcm_open file_mode
  | Snd_pcm_hw_params_malloc
  | Snd_pcm_hw_params_any
  | Snd_pcm_hw_params_set_rate_resample
  | Snd_pcm_hw_params_set_access
  | Snd_pcm_format_mask_malloc
  | Snd_pcm_hw_params_get_format_mask
  | Snd_pcm_hw_params_set_format snd_pcm_format
  | Snd_pcm_format_mask_free
  | Snd_pcm_hw_params_set_rate_near nat
  | Snd_pcm_hw_params_set_channels_near nat
  | Snd_pcm_hw_params_get_sbits
  | Snd_pcm_hw_params_get_buffer_size_min
  | Snd_pcm_hw_params_get_buffer_size_max
  | Snd_pcm_hw_params_set_period_size_near nat
  | Snd_pcm_hw_params_set_buffer_size_near nat
  | Snd_pcm_hw_params
  | Snd_pcm_hw_params_free
  | Snd_pcm_prepare
  | Snd_pcm_readi nat
  | Snd_pcm_writei nat nat
  | Snd_pcm_resume
  | Snd_pcm_recover int
  | Snd_pcm_drain
  | Snd_pcm_close

text \<open>
  Where the two worker threads stand. \<open>read_thread\<close>: not created; at its first
  \<open>sem_wait(&p->rread_sem)\<close>; in the \<open>snd_pcm_readi\<close> loop; holding a block at the
  second \<open>sem_wait(&p->rread_sem)\<close>. \<open>write_thread\<close>: not created; before its
  first \<open>sem_post(&p->write_sem)\<close>; at \<open>sem_wait(&p->rwrite_sem)\<close>; in the
  \<open>snd_pcm_writei\<close> loop; returned.
\<close>

datatype read_thread_state = RT_none | RT_first_wait | RT_reading | RT_holding

datatype write_thread_state = WT_none | WT_start | WT_waiting | WT_sending | WT_returned

text \<open>
  One record holds the private data \<open>priv_t\<close> (\<open>buf_len\<close> to \<open>rread_sem\<close>), the
  fields of the handle \<open>ft\<close> that the driver touches (\<open>mode\<close> to \<open>sox_errstr\<close>;
  \<open>rate\<close> is the rate as the unsigned number that \<open>setup\<close> hands to the device),
  and what lies outside both: the global \<open>sox_globals.bufsiz\<close>, the static flag
  \<open>first\<close> of \<open>read_\<close>, the two threads, the calls made to the sound library so far,
  and the platform (byte order, the bytes found in freshly allocated memory, and the
  sizes for which \<open>realloc\<close> returns \<open>NULL\<close>). Sizes and counts are natural numbers;
  the products that the source computes in \<open>unsigned long\<close> are reduced with
  \<open>ulong\<close>. A buffer pointer is \<open>None\<close> while nothing is allocated behind it.
\<close>

record session =
  buf_len :: nat
  period :: nat
  read_len :: nat
  write_len :: nat
  pcm :: bool
  buf :: "byte list option"
  thread_buf :: "byte list option"
  bufsize :: nat
  format :: nat
  write_sem :: nat
  rwrite_sem :: nat
  read_sem :: nat
  rread_sem :: nat
  mode :: file_mode
  encoding :: sox_encoding_t
  bits_per_sample :: nat
  reverse_bytes :: bool
  rate :: nat
  channels :: nat
  precision :: nat
  clips :: nat
  olength :: nat
  sox_errno :: sox_error_t
  sox_errstr :: error_text
  bufsiz :: nat
  first :: bool
  read_thread :: read_thread_state
  write_thread :: write_thread_state
  calls :: "alsa_call list"
  host_be :: bool
  garbage :: "nat \<Rightarrow> byte"
  realloc_null :: "nat \<Rightarrow> bool"

definition ulong :: "nat \<Rightarrow> nat" where
  "ulong x = x mod 2 ^ 64"

definition log_call :: "alsa_call \<Rightarrow> session \<Rightarrow> session" where
  "log_call c s = s\<lparr>calls := calls s @ [c]\<rparr>"

text \<open>
  Modelled from the spec: \<open>lsx_fail_errno\<close> belongs to the host and is not among
  the source files; it surfaces an error to the caller by recording the error class
  and its text in the handle.
\<close>

definition lsx_fail_errno :: "session \<Rightarrow> sox_error_t \<Rightarrow> error_text \<Rightarrow> session" where
  "lsx_fail_errno s e text = s\<lparr>sox_errno := e, sox_errstr := text\<rparr>"

text \<open>
  What a call of the driver comes to: it returns, it never returns under the given
  schedule (it waits at a semaphore that nobody posts, or loops for ever), it leaves
  the behaviour undefined (a division by zero, an access outside a buffer or through
  a freed or null pointer), or it ends the process with an exit status, in the state
  that the session has reached by then.
\<close>

datatype 'a outcome = Returns 'a | Blocks | Undefined | Exits int session

subsection \<open>Memory\<close>

text \<open>
  \<open>_lsx_realloc\<close> called with a null pointer, as \<open>lsx_malloc\<close> does: the first test
  of the source needs a non-null pointer, so the call is \<open>realloc(NULL, newsize)\<close>,
  and a null result ends the process with status 2.
\<close>

definition lsx_malloc :: "session \<Rightarrow> nat \<Rightarrow> byte list outcome" where
  "lsx_malloc s newsize =
     (if realloc_null s newsize then Exits 2 s else Returns (map (garbage s) [0..<newsize]))"


text \<open>\<open>memcpy(dst, src, n)\<close>: the new contents of \<open>dst\<close>, or \<open>None\<close> when either
  block is missing or shorter than \<open>n\<close>.\<close>

definition memcpy :: "byte list option \<Rightarrow> byte list option \<Rightarrow> nat \<Rightarrow> byte list option" where
  "memcpy dst src n =
     (case dst of
        None \<Rightarrow> None
      | Some d \<Rightarrow>
          (case src of
             None \<Rightarrow> None
           | Some b \<Rightarrow> if n \<le> length d \<and> n \<le> length b then Some (take n b @ drop n d) else None))"

subsection \<open>The device during negotiation\<close>

text \<open>
  The sound library is outside the driver. For \<open>setup\<close> it is given by the result
  of each of its calls: a return code (negative for failure) and, for the calls with
  an output variable, the value the call leaves there; the calls named \<open>near\<close> see
  the requested value. \<open>snd_pcm_hw_params_set_rate_resample\<close> is called with library
  versions from 1.0.9 on, which the model assumes.
\<close>

record alsa_device =
  snd_pcm_open :: int
  snd_pcm_hw_params_malloc :: int
  snd_pcm_hw_params_any :: int
  snd_pcm_hw_params_set_rate_resample :: int
  snd_pcm_hw_params_set_access :: int
  snd_pcm_format_mask_malloc :: int
  snd_pcm_hw_params_get_format_mask :: snd_pcm_format_mask_t
  snd_pcm_hw_params_set_format :: "snd_pcm_format \<Rightarrow> int"
  snd_pcm_hw_params_set_rate_near :: "nat \<Rightarrow> int \<times> nat"
  snd_pcm_hw_params_set_channels_near :: "nat \<Rightarrow> int \<times> nat"
  snd_pcm_hw_params_get_sbits :: int
  snd_pcm_hw_params_get_buffer_size_min :: "int \<times> nat"
  snd_pcm_hw_params_get_buffer_size_max :: "int \<times> nat"
  snd_pcm_hw_params_set_period_size_near :: "nat \<Rightarrow> int \<times> nat"
  snd_pcm_hw_params_set_buffer_size_near :: "nat \<Rightarrow> int \<times> nat"
  snd_pcm_hw_params :: int
  snd_pcm_prepare :: int

subsection \<open>setup\<close>

text \<open>
  The label \<open>error:\<close> of \<open>setup\<close>: the mask and the parameter object are freed if
  they are live, and the call returns \<open>SOX_EOF\<close>.
\<close>

definition setup_error :: "bool \<Rightarrow> bool \<Rightarrow> session \<Rightarrow> (sox_error_t \<times> session) outcome" where
  "setup_error mask_live params_live s =
     (let s1 = (if mask_live then log_call Snd_pcm_format_mask_free s else s);
          s2 = (if params_live then log_call Snd_pcm_hw_params_free s1 else s1)
      in Returns (SOX_EOF, s2))"

text \<open>
  The macro \<open>_(x, y)\<close>: the call is made; a negative result is reported with
  \<open>lsx_fail_errno(ft, SOX_EPERM, ...)\<close> and control goes to \<open>error:\<close>; otherwise
  the rest of \<open>setup\<close> runs.
\<close>

definition underscore ::
  "alsa_call \<Rightarrow> string \<Rightarrow> int \<Rightarrow> bool \<Rightarrow> bool \<Rightarrow> session \<Rightarrow>
   (session \<Rightarrow> (sox_error_t \<times> session) outcome) \<Rightarrow> (sox_error_t \<times> session) outcome" where
  "underscore c name err mask_live params_live s rest =
     (let s1 = log_call c s
      in if err < 0
         then setup_error mask_live params_live (lsx_fail_errno s1 SOX_EPERM (Call_error name err))
         else rest s1)"

text \<open>
  Modelled from the spec: \<open>range_limit\<close> is a macro of the host that is not among the
  source files; it clamps its first argument into the range of the other two.
\<close>

definition range_limit :: "nat \<Rightarrow> nat \<Rightarrow> nat \<Rightarrow> nat" where
  "range_limit x lower upper = min (max x lower) upper"

definition SOX_SAMPLE_PRECISION :: nat where
  "SOX_SAMPLE_PRECISION = 32"

definition sizeof_thread_priv_t :: nat where
  "sizeof_thread_priv_t = 16"

text \<open>
  Lines 237 to 253: the parameters are committed, the device is prepared, the buffer
  length is turned from frames into samples and bytes, the two buffers are allocated, the
  semaphores start at 0 and both threads are created.
\<close>

definition setup_commit :: "alsa_device \<Rightarrow> session \<Rightarrow> (sox_error_t \<times> session) outcome" where
  "setup_commit dev s =
     underscore Snd_pcm_hw_params ''snd_pcm_hw_params'' (snd_pcm_hw_params dev) False True s
       (\<lambda>s.
     let s = log_call Snd_pcm_hw_params_free s in
     underscore Snd_pcm_prepare ''snd_pcm_prepare'' (snd_pcm_prepare dev) False False s
       (\<lambda>s.
     let s = s\<lparr>buf_len := ulong (buf_len s * channels s)\<rparr>;
         s = s\<lparr>bufsize := ulong (buf_len s * bytes (formats ! format s))\<rparr>
     in case lsx_malloc s (bufsize s) of
          Blocks \<Rightarrow> Blocks
        | Undefined \<Rightarrow> Undefined
        | Exits c x \<Rightarrow> Exits c x
        | Returns b \<Rightarrow>
     (let s = s\<lparr>buf := Some b\<rparr>
      in case lsx_malloc s (ulong (bufsize s * 10)) of
          Blocks \<Rightarrow> Blocks
        | Undefined \<Rightarrow> Undefined
        | Exits c x \<Rightarrow> Exits c x
        | Returns tb \<Rightarrow>
     (let s = s\<lparr>thread_buf := Some tb\<rparr>;
          s = s\<lparr>write_sem := 0, rwrite_sem := 0, read_sem := 0, rread_sem := 0\<rparr>
      in case lsx_malloc s sizeof_thread_priv_t of
          Blocks \<Rightarrow> Blocks
        | Undefined \<Rightarrow> Undefined
        | Exits c x \<Rightarrow> Exits c x
        | Returns tpt \<Rightarrow>
            Returns (SOX_SUCCESS, s\<lparr>read_thread := RT_first_wait, write_thread := WT_start\<rparr>)))))"

text \<open>
  Lines 223 and 224: the buffer length wanted, in frames. Lines 227 and 228: the period
  and the buffer length derived from it and from the limits of the device.
\<close>

definition want_buf_len :: "session \<Rightarrow> session" where
  "want_buf_len s =
     s\<lparr>buf_len := ulong (bufsiz s * 8) div bytes (formats ! format s) div channels s\<rparr>"

definition derive_period :: "nat \<Rightarrow> nat \<Rightarrow> session \<Rightarrow> session" where
  "derive_period lo hi s =
     (let s1 = s\<lparr>period := range_limit (buf_len s) lo hi div 8\<rparr>
      in s1\<lparr>buf_len := ulong (period s1 * 8)\<rparr>)"

text \<open>
  Lines 222 to 235: the buffer length wanted, the limits of the device, the period and
  the buffer length requested, what the device makes of them, and the test of the
  result. The two divisions are undefined for a divisor 0, and so is the table entry
  for an index outside the table.
\<close>

definition setup_buffers :: "alsa_device \<Rightarrow> session \<Rightarrow> (sox_error_t \<times> session) outcome" where
  "setup_buffers dev s =
     (if length formats \<le> format s \<or> bytes (formats ! format s) = 0 \<or> channels s = 0
      then Undefined
      else
     let s = want_buf_len s in
     underscore Snd_pcm_hw_params_get_buffer_size_min ''snd_pcm_hw_params_get_buffer_size_min''
       (fst (snd_pcm_hw_params_get_buffer_size_min dev)) False True s
       (\<lambda>s.
     underscore Snd_pcm_hw_params_get_buffer_size_max ''snd_pcm_hw_params_get_buffer_size_max''
       (fst (snd_pcm_hw_params_get_buffer_size_max dev)) False True s
       (\<lambda>s.
     let s = derive_period (snd (snd_pcm_hw_params_get_buffer_size_min dev))
               (snd (snd_pcm_hw_params_get_buffer_size_max dev)) s;
         requested_period = period s;
         s = s\<lparr>period := snd (snd_pcm_hw_params_set_period_size_near dev requested_period)\<rparr>
     in
     underscore (Snd_pcm_hw_params_set_period_size_near requested_period)
       ''snd_pcm_hw_params_set_period_size_near''
       (fst (snd_pcm_hw_params_set_period_size_near dev requested_period)) False True s
       (\<lambda>s.
     let requested_buf_len = buf_len s;
         s = s\<lparr>buf_len := snd (snd_pcm_hw_params_set_buffer_size_near dev requested_buf_len)\<rparr>
     in
     underscore (Snd_pcm_hw_params_set_buffer_size_near requested_buf_len)
       ''snd_pcm_hw_params_set_buffer_size_near''
       (fst (snd_pcm_hw_params_set_buffer_size_near dev requested_buf_len)) False True s
       (\<lambda>s.
     if buf_len s < ulong (period s * 2)
     then setup_error False True (lsx_fail_errno s SOX_EPERM Buffer_too_small)
     else setup_commit dev s)))))"

text \<open>
  Two states on the way through these lines, for stating what happens there:
  \<open>requested\<close> is the session after line 228, with the period and the buffer length
  that are about to be requested; \<open>negotiated\<close> is the session at the test of line
  232, after the device has adjusted both.
\<close>

definition requested :: "alsa_device \<Rightarrow> session \<Rightarrow> session" where
  "requested dev s =
     derive_period (snd (snd_pcm_hw_params_get_buffer_size_min dev))
       (snd (snd_pcm_hw_params_get_buffer_size_max dev))
       (log_call Snd_pcm_hw_params_get_buffer_size_max
         (log_call Snd_pcm_hw_params_get_buffer_size_min (want_buf_len s)))"

definition negotiated :: "alsa_device \<Rightarrow> session \<Rightarrow> session" where
  "negotiated dev s =
     (let d = requested dev s;
          d1 = log_call (Snd_pcm_hw_params_set_period_size_near (period d))
                 (d\<lparr>period := snd (snd_pcm_hw_params_set_period_size_near dev (period d))\<rparr>)
      in log_call (Snd_pcm_hw_params_set_buffer_size_near (buf_len d))
           (d1\<lparr>buf_len := snd (snd_pcm_hw_params_set_buffer_size_near dev (buf_len d))\<rparr>))"

text \<open>The function \<open>setup\<close> of the driver, whose name is taken in the theory language.
  Lines 194 to 220: the device is opened and format, rate, channels and precision are
  settled; the function goes on with the two parts above.\<close>

definition alsa_setup :: "alsa_device \<Rightarrow> session \<Rightarrow> (sox_error_t \<times> session) outcome" where
  "alsa_setup dev s =
     underscore (Snd_pcm_open (mode s)) ''snd_pcm_open'' (snd_pcm_open dev) False False s
       (\<lambda>s.
     let s = s\<lparr>pcm := True\<rparr> in
     underscore Snd_pcm_hw_params_malloc ''snd_pcm_hw_params_malloc''
       (snd_pcm_hw_params_malloc dev) False False s
       (\<lambda>s.
     underscore Snd_pcm_hw_params_any ''snd_pcm_hw_params_any''
       (snd_pcm_hw_params_any dev) False True s
       (\<lambda>s.
     underscore Snd_pcm_hw_params_set_rate_resample ''snd_pcm_hw_params_set_rate_resample''
       (snd_pcm_hw_params_set_rate_resample dev) False True s
       (\<lambda>s.
     underscore Snd_pcm_hw_params_set_access ''snd_pcm_hw_params_set_access''
       (snd_pcm_hw_params_set_access dev) False True s
       (\<lambda>s.
     underscore Snd_pcm_format_mask_malloc ''snd_pcm_format_mask_malloc''
       (snd_pcm_format_mask_malloc dev) False True s
       (\<lambda>s.
     let s = log_call Snd_pcm_hw_params_get_format_mask s in
     case select_format (encoding s) (bits_per_sample s)
            (snd_pcm_hw_params_get_format_mask dev) (format s) of
       (err, encoding1, nbits1, format1) \<Rightarrow>
     let s = s\<lparr>encoding := encoding1, bits_per_sample := nbits1, format := format1\<rparr> in
     if err < 0
     then setup_error True True (lsx_fail_errno s SOX_EPERM (Call_error ''select_format'' err))
     else
     underscore (Snd_pcm_hw_params_set_format (alsa_fmt (formats ! format s)))
       ''snd_pcm_hw_params_set_format''
       (snd_pcm_hw_params_set_format dev (alsa_fmt (formats ! format s))) True True s
       (\<lambda>s.
     let s = log_call Snd_pcm_format_mask_free s in
     underscore (Snd_pcm_hw_params_set_rate_near (rate s)) ''snd_pcm_hw_params_set_rate_near''
       (fst (snd_pcm_hw_params_set_rate_near dev (rate s))) False True s
       (\<lambda>s.
     let s = s\<lparr>rate := snd (snd_pcm_hw_params_set_rate_near dev (rate s))\<rparr> in
     underscore (Snd_pcm_hw_params_set_channels_near (channels s))
       ''snd_pcm_hw_params_set_channels_near''
       (fst (snd_pcm_hw_params_set_channels_near dev (channels s))) False True s
       (\<lambda>s.
     let s = s\<lparr>channels := snd (snd_pcm_hw_params_set_channels_near dev (channels s))\<rparr>;
         s = log_call Snd_pcm_hw_params_get_sbits s;
         s = (if 0 < snd_pcm_hw_params_get_sbits dev
              then s\<lparr>precision := min (nat (snd_pcm_hw_params_get_sbits dev)) SOX_SAMPLE_PRECISION\<rparr>
              else s)
     in setup_buffers dev s)))))))))"

subsection \<open>The device during transfer\<close>

text \<open>
  While audio is transferred the device answers \<open>snd_pcm_readi\<close>, \<open>snd_pcm_writei\<close>,
  \<open>snd_pcm_resume\<close> and \<open>snd_pcm_recover\<close>. A thread is run on the list of the
  answers it will get, one per call in the order of the calls: the result of the call
  and, for a read, the bytes the device delivers. A loop that has used up the list
  without leaving is still running.
\<close>

type_synonym reply = "int \<times> byte list"

definition EAGAIN :: int where "EAGAIN = 11"
definition EPIPE :: int where "EPIPE = 32"
definition ESTRPIPE :: int where "ESTRPIPE = 86"

text \<open>\<open>while ((err = snd_pcm_resume(pcm)) == -EAGAIN) \<dots>\<close>: the result that ends the
  loop, the session with the calls logged, and the answers left.\<close>

fun resume_loop :: "reply list \<Rightarrow> session \<Rightarrow> (int \<times> session \<times> reply list) option" where
  "resume_loop [] s = None"
| "resume_loop (r # rs) s =
     (if fst r = - EAGAIN then resume_loop rs (log_call Snd_pcm_resume s)
      else Some (fst r, log_call Snd_pcm_resume s, rs))"

definition recover :: "reply list \<Rightarrow> session \<Rightarrow> int \<Rightarrow> (int \<times> session \<times> reply list) option" where
  "recover rs s err =
     (case (if err = - EPIPE then Some (err, s, rs)
            else if err \<noteq> - ESTRPIPE then Some (err, s, rs)
            else resume_loop rs s) of
        None \<Rightarrow> None
      | Some (err1, s1, rs1) \<Rightarrow>
          if err1 < 0 then
            (case rs1 of
               [] \<Rightarrow> None
             | r # rs2 \<Rightarrow>
                 (let s2 = log_call (Snd_pcm_recover err1) s1
                  in if fst r < 0
                     then Some (fst r, lsx_fail_errno s2 SOX_EPERM (Device_error (fst r)), rs2)
                     else Some (fst r, s2, rs2)))
          else Some (err1, s1, rs1))"

lemma resume_loop_shorter:
  "resume_loop rs s = Some (e, s', rs') \<Longrightarrow> length rs' < length rs"
proof (induction rs arbitrary: s)
  case Nil
  then show ?case by simp
next
  case (Cons r rs)
  show ?case
  proof (cases "fst r = - EAGAIN")
    case True
    with Cons.prems have "resume_loop rs (log_call Snd_pcm_resume s) = Some (e, s', rs')"
      by simp
    from Cons.IH [OF this] show ?thesis by simp
  next
    case False
    with Cons.prems show ?thesis by simp
  qed
qed

lemma recover_shorter:
  "recover rs s err = Some (e, s', rs') \<Longrightarrow> length rs' \<le> length rs"
  by (auto simp add: recover_def Let_def split: if_splits option.splits list.splits
      dest: resume_loop_shorter)

subsection \<open>The worker threads\<close>

text \<open>
  The \<open>for\<close> loop of \<open>write_thread\<close> with its two nested \<open>do\<close> loops, for a block
  of \<open>n\<close> samples from sample \<open>i\<close> on. The thread has either sent the block, or
  returned because recovery failed, or is still in the loop, or has divided by a
  channel count of 0.
\<close>

datatype send_result = Sent session | Gave_up session | Still_sending | Send_undefined

function send_block :: "nat \<Rightarrow> nat \<Rightarrow> reply list \<Rightarrow> session \<Rightarrow> send_result" where
  "send_block n i rs s =
     (if i < n then
        (if channels s = 0 then Send_undefined
         else
           (case rs of
              [] \<Rightarrow> Still_sending
            | r # rs1 \<Rightarrow>
                (let s1 = log_call (Snd_pcm_writei (i * bytes (formats ! format s))
                                      ((n - i) div channels s)) s;
                     actual = fst r
                 in if actual = - EAGAIN then send_block n i rs1 s1
                    else if actual < 0 then
                      (case recover rs1 s1 actual of
                         None \<Rightarrow> Still_sending
                       | Some (e, s2, rs2) \<Rightarrow>
                           if e < 0 then Gave_up s2 else send_block n i rs2 s2)
                    else send_block n (i + nat actual * channels s) rs1 s1)))
      else Sent s)"
  by pat_completeness auto
termination
proof (relation "measure (\<lambda>(n, i, rs, s). length rs)", goal_cases)
  case 1
  show ?case by simp
next
  case (2 n i rs s r rs1 s1 actual)
  then show ?case by simp
next
  case (3 n i rs s r rs1 s1 actual x2 e y s2 rs2)
  then have "recover rs1 s1 actual = Some (e, s2, rs2)" by simp
  from recover_shorter [OF this] 3 show ?case by simp
next
  case (4 n i rs s r rs1 s1 actual)
  then show ?case by simp
qed

declare send_block.simps [simp del]

text \<open>
  One step of \<open>write_thread\<close>, from one semaphore operation to the next. A thread
  that waits at a semaphore with count 0 stays where it is.
\<close>

definition write_thread_step :: "reply list \<Rightarrow> session \<Rightarrow> session outcome" where
  "write_thread_step rs s =
     (case write_thread s of
        WT_none \<Rightarrow> Returns s
      | WT_start \<Rightarrow> Returns (s\<lparr>write_sem := write_sem s + 1, write_thread := WT_waiting\<rparr>)
      | WT_waiting \<Rightarrow>
          if rwrite_sem s = 0 then Returns s
          else Returns (s\<lparr>rwrite_sem := rwrite_sem s - 1, write_thread := WT_sending\<rparr>)
      | WT_sending \<Rightarrow>
          (case send_block (write_len s) 0 rs s of
             Sent s1 \<Rightarrow> Returns (s1\<lparr>write_sem := write_sem s1 + 1, write_thread := WT_waiting\<rparr>)
           | Gave_up s1 \<Rightarrow> Returns (s1\<lparr>write_thread := WT_returned\<rparr>)
           | Still_sending \<Rightarrow> Blocks
           | Send_undefined \<Rightarrow> Undefined)
      | WT_returned \<Rightarrow> Returns s)"

text \<open>
  The \<open>do\<close> loop of \<open>read_thread\<close> for a request of \<open>len\<close> frames. A positive
  result of \<open>snd_pcm_readi\<close> has put the delivered bytes at the start of the transfer
  buffer. \<open>None\<close>: the thread is still in the loop; the inner \<open>None\<close>: the transfer
  buffer is missing.
\<close>

function read_block :: "nat \<Rightarrow> reply list \<Rightarrow> session \<Rightarrow> session option option" where
  "read_block len rs s =
     (case rs of
        [] \<Rightarrow> None
      | r # rs1 \<Rightarrow>
          (case thread_buf s of
             None \<Rightarrow> Some None
           | Some tb \<Rightarrow>
               (let s1 = log_call (Snd_pcm_readi len) s;
                    n = fst r
                in if n < 0 then
                     (case recover rs1 s1 n of
                        None \<Rightarrow> None
                      | Some (e, s2, rs2) \<Rightarrow>
                          if e < 0 then Some (Some s2) else read_block len rs2 s2)
                   else if n \<le> 0 then read_block len rs1 s1
                   else Some (Some (s1\<lparr>thread_buf :=
                          Some (take (length tb) (snd r) @ drop (length (snd r)) tb)\<rparr>)))))"
  by pat_completeness auto
termination
proof (relation "measure (\<lambda>(len, rs, s). length rs)", goal_cases)
  case 1
  show ?case by simp
next
  case (2 len rs s r rs1 tb s1 n x2 e y s2 rs2)
  then have "recover rs1 s1 n = Some (e, s2, rs2)" by simp
  from recover_shorter [OF this] 2 show ?case by simp
next
  case (3 len rs s r rs1 tb s1 n)
  then show ?case by simp
qed

declare read_block.simps [simp del]

text \<open>One step of \<open>read_thread\<close>, from one semaphore operation to the next.\<close>

definition read_thread_step :: "reply list \<Rightarrow> session \<Rightarrow> session outcome" where
  "read_thread_step rs s =
     (case read_thread s of
        RT_none \<Rightarrow> Returns s
      | RT_first_wait \<Rightarrow>
          if rread_sem s = 0 then Returns s
          else Returns (s\<lparr>rread_sem := rread_sem s - 1, read_thread := RT_reading\<rparr>)
      | RT_reading \<Rightarrow>
          if channels s = 0 then Undefined
          else
            (case read_block (read_len s div channels s) rs s of
               None \<Rightarrow> Blocks
             | Some None \<Rightarrow> Undefined
             | Some (Some s1) \<Rightarrow> Returns (s1\<lparr>read_thread := RT_holding\<rparr>))
      | RT_holding \<Rightarrow>
          if rread_sem s = 0 then Returns s
          else
            (case memcpy (buf s) (thread_buf s) (bufsize s) of
               None \<Rightarrow> Undefined
             | Some b \<Rightarrow>
                 Returns (s\<lparr>rread_sem := rread_sem s - 1, buf := Some b,
                            read_sem := read_sem s + 1, read_thread := RT_reading\<rparr>)))"

text \<open>
  What the two threads do while the application is between two of its own steps: a
  list of thread steps, each with the answers of the device for it. A step that is
  still inside its device loop when its answers are used up (\<open>Blocks\<close>) holds up its
  own thread only: nobody waits for it except at a semaphore, so the step is not
  taken, the thread stays where it was, and the application and the other thread go
  on. \<open>run_workers\<close> therefore never gives \<open>Blocks\<close>.
\<close>

datatype worker_event = Run_read_thread "reply list" | Run_write_thread "reply list"

fun worker_step :: "worker_event \<Rightarrow> session \<Rightarrow> session outcome" where
  "worker_step (Run_read_thread rs) s = read_thread_step rs s"
| "worker_step (Run_write_thread rs) s = write_thread_step rs s"

fun run_workers :: "worker_event list \<Rightarrow> session \<Rightarrow> session outcome" where
  "run_workers [] s = Returns s"
| "run_workers (e # es) s =
     (case worker_step e s of
        Returns s1 \<Rightarrow> run_workers es s1
      | Blocks \<Rightarrow> run_workers es s
      | Undefined \<Rightarrow> Undefined
      | Exits c x \<Rightarrow> Exits c x)"

subsection \<open>read\_ and write\_\<close>

text \<open>
  The size of the element type through which a branch of the two \<open>switch\<close>
  statements walks \<open>p->buf\<close> (three single bytes for the packed layout).
\<close>

fun element_size :: "snd_pcm_format \<Rightarrow> nat" where
  "element_size SND_PCM_FORMAT_S8 = 1"
| "element_size SND_PCM_FORMAT_U8 = 1"
| "element_size SND_PCM_FORMAT_S16 = 2"
| "element_size SND_PCM_FORMAT_U16 = 2"
| "element_size SND_PCM_FORMAT_S24 = 4"
| "element_size SND_PCM_FORMAT_S24_3LE = 3"
| "element_size SND_PCM_FORMAT_U24 = 4"
| "element_size SND_PCM_FORMAT_S32 = 4"
| "element_size SND_PCM_FORMAT_U32 = 4"
| "element_size (SND_PCM_FORMAT_OTHER v) = 0"

text \<open>
  \<open>read_\<close> (\<open>alsa_read\<close> here, for want of a name ending in an underscore), called
  with the number \<open>len\<close> of samples wanted; \<open>sched\<close> is what
  the threads do while the call is at \<open>sem_wait(&p->read_sem)\<close>, the only place
  where it waits. The result is the
  return value, the samples stored at the start of the caller's array, and the session.
  \<open>read_prime\<close> is the part before the wait (lines 268 to 276).
\<close>

definition read_prime :: "session \<Rightarrow> nat \<Rightarrow> session" where
  "read_prime s len =
     (if first s
      then s\<lparr>read_len := len, rread_sem := rread_sem s + 2, first := False\<rparr>
      else if read_len s \<noteq> len then s\<lparr>read_len := len\<rparr> else s)"

definition alsa_read ::
  "worker_event list \<Rightarrow> session \<Rightarrow> nat \<Rightarrow> (nat \<times> sox_sample_t list \<times> session) outcome" where
  "alsa_read sched s len0 =
     (let len = min len0 (buf_len s);
          s1 = read_prime s len
      in case run_workers sched s1 of
           Blocks \<Rightarrow> Blocks
         | Undefined \<Rightarrow> Undefined
         | Exits c x \<Rightarrow> Exits c x
         | Returns s2 \<Rightarrow>
             if read_sem s2 = 0 then Blocks
             else
               (let s3 = s2\<lparr>read_sem := read_sem s2 - 1\<rparr>
                in if length formats \<le> format s3 then Undefined
                   else
                     (case decode_sample (host_be s3) (reverse_bytes s3)
                             (alsa_fmt (formats ! format s3)) of
                        None \<Rightarrow> Returns (0, [], lsx_fail_errno s3 SOX_EFMT Invalid_format)
                      | Some get \<Rightarrow>
                          (case buf s3 of
                             None \<Rightarrow> Undefined
                           | Some b \<Rightarrow>
                               (case decode_loop get
                                       (element_size (alsa_fmt (formats ! format s3))) len b of
                                  None \<Rightarrow> Undefined
                                | Some xs \<Rightarrow>
                                    Returns (len, xs, s3\<lparr>rread_sem := rread_sem s3 + 1\<rparr>))))))"

text \<open>
  The loop of \<open>write_\<close> over the samples not yet written; \<open>len\<close> is the argument
  of the call, which is also its result. \<open>sched\<close> lists what the threads do at each
  place where the application can be overtaken: while it is at
  \<open>sem_wait(&p->write_sem)\<close>, and after its \<open>sem_post(&p->rwrite_sem)\<close>; a list
  that is used up means that the threads do nothing. The call waits at
  \<open>sem_wait(&p->write_sem)\<close> only: it never returns when ``buffer free'' has not
  been posted by then, and it does not wait for a thread that is inside its device
  loop (\<open>run_workers\<close> never gives \<open>Blocks\<close>). With a buffer length of 0 the
  loop makes no progress and never ends.
\<close>

function write_loop ::
  "worker_event list list \<Rightarrow> session \<Rightarrow> nat \<Rightarrow> sox_sample_t list \<Rightarrow> (nat \<times> session) outcome" where
  "write_loop sched s len samples =
     (if samples = [] then Returns (len, s)
      else
        (let n = min (length samples) (buf_len s)
         in if length formats \<le> format s then Undefined
            else
              (case encode_sample (host_be s) (reverse_bytes s) (alsa_fmt (formats ! format s)) of
                 None \<Rightarrow> Returns (0, lsx_fail_errno s SOX_EFMT Invalid_format)
               | Some put \<Rightarrow>
                   (case buf s of
                      None \<Rightarrow> Undefined
                    | Some b \<Rightarrow>
                        (case encode_loop put (take n samples) (clips s) of
                           (encoded, clips1) \<Rightarrow>
                             if length b < length encoded then Undefined
                             else
                               (let s1 = s\<lparr>buf := Some (encoded @ drop (length encoded) b),
                                           clips := clips1, write_len := n\<rparr>
                                in case run_workers (case sched of [] \<Rightarrow> [] | es # rest \<Rightarrow> es) s1 of
                                     Blocks \<Rightarrow> Blocks
                                   | Undefined \<Rightarrow> Undefined
                                   | Exits c x \<Rightarrow> Exits c x
                                   | Returns s2 \<Rightarrow>
                                       if write_sem s2 = 0 then Blocks
                                       else
                                         (case memcpy (thread_buf s2) (buf s2) (bufsize s2) of
                                            None \<Rightarrow> Undefined
                                          | Some tb \<Rightarrow>
                                              (let s3 = s2\<lparr>write_sem := write_sem s2 - 1,
                                                          thread_buf := Some tb,
                                                          rwrite_sem := rwrite_sem s2 + 1\<rparr>
                                               in case run_workers (case drop 1 sched of [] \<Rightarrow> [] | es # rest \<Rightarrow> es) s3 of
                                                    Blocks \<Rightarrow> Blocks
                                                  | Undefined \<Rightarrow> Undefined
                                                  | Exits c x \<Rightarrow> Exits c x
                                                  | Returns s4 \<Rightarrow>
                                                      if n = 0 then Blocks
                                                      else write_loop (drop 2 sched) s4 len
                                                             (drop n samples)))))))))"
  by pat_completeness auto
termination
  by (relation "measure (\<lambda>(sched, s, len, samples). length samples)") auto

declare write_loop.simps [simp del]

text \<open>\<open>write_\<close> (\<open>alsa_write\<close> here), called with the samples to write; \<open>len\<close>
  is their number.\<close>

definition alsa_write ::
  "worker_event list list \<Rightarrow> session \<Rightarrow> sox_sample_t list \<Rightarrow> (nat \<times> session) outcome" where
  "alsa_write sched s samples = write_loop sched s (length samples) samples"

subsection \<open>stop and stop\_write\<close>

definition stop :: "session \<Rightarrow> sox_error_t \<times> session" where
  "stop s = (SOX_SUCCESS, (log_call Snd_pcm_close s)\<lparr>pcm := False, buf := None\<rparr>)"


section \<open>Example devices and sessions\<close>

text \<open>
  A device that accepts what it is asked for: every call succeeds, the calls named
  \<open>near\<close> leave the requested value, the buffer size may be between 64 and 2048
  frames, and every format of the catalog is supported.
\<close>

definition accepting_device :: alsa_device where
  "accepting_device =
     \<lparr> snd_pcm_open = 0,
       snd_pcm_hw_params_malloc = 0,
       snd_pcm_hw_params_any = 0,
       snd_pcm_hw_params_set_rate_resample = 0,
       snd_pcm_hw_params_set_access = 0,
       snd_pcm_format_mask_malloc = 0,
       snd_pcm_hw_params_get_format_mask = (\<lambda>f. True),
       snd_pcm_hw_params_set_format = (\<lambda>f. 0),
       snd_pcm_hw_params_set_rate_near = (\<lambda>n. (0, n)),
       snd_pcm_hw_params_set_channels_near = (\<lambda>n. (0, n)),
       snd_pcm_hw_params_get_sbits = 16,
       snd_pcm_hw_params_get_buffer_size_min = (0, 64),
       snd_pcm_hw_params_get_buffer_size_max = (0, 2048),
       snd_pcm_hw_params_set_period_size_near = (\<lambda>n. (0, n)),
       snd_pcm_hw_params_set_buffer_size_near = (\<lambda>n. (0, n)),
       snd_pcm_hw_params = 0,
       snd_pcm_prepare = 0 \<rparr>"

text \<open>The same device, except that it grants a buffer of only 300 frames.\<close>

definition small_buffer_device :: alsa_device where
  "small_buffer_device =
     accepting_device\<lparr> snd_pcm_hw_params_set_buffer_size_near := (\<lambda>n. (0, 300)) \<rparr>"

text \<open>
  A handle opened for writing 16-bit signed stereo at 44100 Hz on a little-endian
  host, before \<open>setup\<close>: the default buffer size is 8192 bytes, nothing is allocated,
  no thread runs.
\<close>

definition closed_session :: session where
  "closed_session =
     \<lparr> buf_len = 0, period = 0, read_len = 0, write_len = 0, pcm = False,
       buf = None, thread_buf = None, bufsize = 0, format = 2,
       write_sem = 0, rwrite_sem = 0, read_sem = 0, rread_sem = 0,
       mode = Mode_w, encoding = SOX_ENCODING_SIGN2, bits_per_sample = 16,
       reverse_bytes = False, rate = 44100, channels = 2, precision = 16,
       clips = 0, olength = 0, sox_errno = SOX_SUCCESS, sox_errstr = No_error_text,
       bufsiz = 8192, first = True, read_thread = RT_none, write_thread = WT_none,
       calls = [], host_be = False, garbage = (\<lambda>i. 0), realloc_null = (\<lambda>n. False) \<rparr>"

text \<open>
  A small session as \<open>setup\<close> leaves it: 16-bit signed stereo, a period of 1 frame,
  a buffer of 2 frames, that is 4 samples and 8 bytes, a transfer buffer of 80 bytes,
  all semaphores at 0 and both threads created.
\<close>

definition small_session :: session where
  "small_session =
     closed_session\<lparr> buf_len := 4, period := 1, pcm := True,
       buf := Some (replicate 8 0), thread_buf := Some (replicate 80 0), bufsize := 8,
       read_thread := RT_first_wait, write_thread := WT_start \<rparr>"

text \<open>The small session once \<open>write_thread\<close> has posted ``buffer free'' at its start
  and waits for data.\<close>

definition ready_session :: session where
  "ready_session = small_session\<lparr> write_sem := 1, write_thread := WT_waiting \<rparr>"

text \<open>The small session opened for reading, and what the threads do during its first
  \<open>read_\<close>: \<open>read_thread\<close> passes its first wait, reads one frame with the bytes 1, 2,
  3, 4 from the device, and hands the block over.\<close>

definition capture_session :: session where
  "capture_session = small_session\<lparr> mode := Mode_r \<rparr>"

definition one_block_read :: "worker_event list" where
  "one_block_read = [Run_read_thread [], Run_read_thread [(1, [1, 2, 3, 4])], Run_read_thread []]"

text \<open>
  What \<open>write_thread\<close> does when the device refuses the block and recovery fails as
  well: it takes the block, and \<open>snd_pcm_writei\<close> and then \<open>snd_pcm_recover\<close> return
  \<open>-5\<close> (\<open>-EIO\<close>). The same for \<open>read_thread\<close> with \<open>snd_pcm_readi\<close>. And a
  \<open>write_thread\<close> that takes the block and gets it accepted whole.
\<close>

definition failing_write :: "worker_event list" where
  "failing_write = [Run_write_thread [], Run_write_thread [(- 5, []), (- 5, [])]]"

definition failing_read :: "worker_event list" where
  "failing_read = [Run_read_thread [], Run_read_thread [(- 5, []), (- 5, [])], Run_read_thread []]"


section \<open>Vocabulary for the properties\<close>

text \<open>The result of a call that has returned.\<close>

fun returned :: "'a outcome \<Rightarrow> 'a option" where
  "returned (Returns x) = Some x"
| "returned Blocks = None"
| "returned Undefined = None"
| "returned (Exits c x) = None"

text \<open>Whether a call never returns.\<close>

fun never_returns :: "'a outcome \<Rightarrow> bool" where
  "never_returns Blocks = True"
| "never_returns (Returns x) = False"
| "never_returns Undefined = False"
| "never_returns (Exits c x) = False"



text \<open>
  What no thread changes once \<open>setup\<close> has returned: the selected format, the byte
  order and the byte-swap flag, the buffer length in samples and in bytes, the period
  and the channel count.
\<close>

definition same_geometry :: "session \<Rightarrow> session \<Rightarrow> bool" where
  "same_geometry s s' =
     (format s' = format s \<and> host_be s' = host_be s \<and> reverse_bytes s' = reverse_bytes s \<and>
      buf_len s' = buf_len s \<and> bufsize s' = bufsize s \<and> period s' = period s \<and>
      channels s' = channels s)"

text \<open>
  The conversion buffer as \<open>setup\<close> allocates it: the format is one of the catalog and
  the buffer holds at least \<open>buf_len\<close> samples of that format.
\<close>

definition conversion_buffer_ok :: "session \<Rightarrow> bool" where
  "conversion_buffer_ok s =
     (format s < 9 \<and>
      (case buf s of
         None \<Rightarrow> False
       | Some b \<Rightarrow> buf_len s * bytes (formats ! format s) \<le> length b))"



section \<open>Properties of the format selector\<close>

lemma length_formats: "length formats = 10"
  by (simp add: formats_def)

lemma find_from_0:
  "find_from nbits 0 =
     (if nbits \<le> 8 then 0 else if nbits \<le> 16 then 2 else if nbits \<le> 24 then 4
      else if nbits \<le> 32 then 7 else 9)"
  by (simp add: find_from.simps formats_def)

lemma nat_le9_cases:
  fixes k :: nat
  assumes "k \<le> 9"
  obtains "k = 0" | "k = 1" | "k = 2" | "k = 3" | "k = 4" | "k = 5"
    | "k = 6" | "k = 7" | "k = 8" | "k = 9"
  using assms by force

lemma find_end_9: "frm \<le> 9 \<Longrightarrow> find_end frm = 9"
  by (erule nat_le9_cases) (simp_all add: find_end.simps formats_def)

lemma bits_below_find_from:
  "k < 9 \<Longrightarrow> (find_from nbits 0 \<le> k) = (nbits \<le> bits (formats ! k))"
proof -
  assume "k < 9"
  then have "k \<le> 9" and "k \<noteq> 9" by simp_all
  then show ?thesis
    by (elim nat_le9_cases) (simp_all add: find_from_0 formats_def)
qed

lemma scan_cases:
  "scan e m i to c = c \<or> (\<exists>k. scan e m i to c = int k \<and> i \<le> k \<and> k < to \<and> m (alsa_fmt (formats ! k)))"
proof (induction e m i to c rule: scan.induct)
  case (1 e m i to c)
  show ?case
  proof (cases "i < to")
    case False
    then show ?thesis by (subst scan.simps) simp
  next
    case lt: True
    show ?thesis
    proof (cases "m (alsa_fmt (formats ! i))")
      case no: False
      from 1(2) [OF lt no] lt no show ?thesis
        by (subst (1 2) scan.simps) (auto intro: Suc_leD)
    next
      case yes: True
      show ?thesis
      proof (cases "enc (formats ! i) = e")
        case True
        with lt yes show ?thesis by (subst (1 2) scan.simps) auto
      next
        case ne: False
        from 1(1) [OF lt yes ne] lt yes ne show ?thesis
          by (subst (1 2) scan.simps) (auto intro: Suc_leD)
      qed
    qed
  qed
qed


lemma scan_none:
  "scan e m i to c = -1 \<Longrightarrow> c = -1 \<and> (\<forall>k. i \<le> k \<and> k < to \<longrightarrow> \<not> m (alsa_fmt (formats ! k)))"
proof (induction e m i to c rule: scan.induct)
  case (1 e m i to c)
  show ?case
  proof (cases "i < to")
    case False
    with 1(3) show ?thesis by (subst (asm) scan.simps) auto
  next
    case lt: True
    show ?thesis
    proof (cases "m (alsa_fmt (formats ! i))")
      case no: False
      from 1(3) lt no have "scan e m (i + 1) to c = -1"
        by (subst (asm) scan.simps) simp
      from 1(2) [OF lt no this]
      have c: "c = -1" and rest: "\<forall>k. i + 1 \<le> k \<and> k < to \<longrightarrow> \<not> m (alsa_fmt (formats ! k))"
        by simp_all
      have "\<not> m (alsa_fmt (formats ! k))" if "i \<le> k" "k < to" for k
      proof (cases "k = i")
        case True
        with no show ?thesis by simp
      next
        case False
        with that rest show ?thesis by simp
      qed
      with c show ?thesis by simp
    next
      case yes: True
      show ?thesis
      proof (cases "enc (formats ! i) = e")
        case True
        with 1(3) lt yes show ?thesis by (subst (asm) scan.simps) simp
      next
        case ne: False
        from 1(3) lt yes ne
        have "scan e m (i + 1) to (if c = -1 then int i else c) = -1"
          by (subst (asm) scan.simps) simp
        from 1(1) [OF lt yes ne this] show ?thesis
          by (simp split: if_splits)
      qed
    qed
  qed
qed

lemma scan_exact:
  "i \<le> k \<Longrightarrow> k < to \<Longrightarrow> m (alsa_fmt (formats ! k)) \<Longrightarrow> enc (formats ! k) = e \<Longrightarrow>
   \<forall>j. i \<le> j \<and> j < k \<longrightarrow> \<not> (m (alsa_fmt (formats ! j)) \<and> enc (formats ! j) = e) \<Longrightarrow>
   scan e m i to c = int k"
proof (induction e m i to c rule: scan.induct)
  case (1 e m i to c)
  from 1(3,4) have lt: "i < to" by simp
  show ?case
  proof (cases "k = i")
    case True
    with 1(4,5,6) show ?thesis by (subst scan.simps) simp
  next
    case False
    with 1(3) have ik: "i + 1 \<le> k" and "i < k" by simp_all
    with 1(7) have nomatch: "\<not> (m (alsa_fmt (formats ! i)) \<and> enc (formats ! i) = e)"
      by simp
    from 1(7) have rest:
      "\<forall>j. i + 1 \<le> j \<and> j < k \<longrightarrow> \<not> (m (alsa_fmt (formats ! j)) \<and> enc (formats ! j) = e)"
      by simp
    show ?thesis
    proof (cases "m (alsa_fmt (formats ! i))")
      case no: False
      from 1(2) [OF lt no ik 1(4) 1(5) 1(6) rest] lt no show ?thesis
        by (subst scan.simps) simp
    next
      case yes: True
      with nomatch have ne: "enc (formats ! i) \<noteq> e" by simp
      from 1(1) [OF lt yes ne ik 1(4) 1(5) 1(6) rest] lt yes ne show ?thesis
        by (subst scan.simps) simp
    qed
  qed
qed

lemma scan_keeps_candidate:
  "c \<noteq> -1 \<Longrightarrow>
   \<forall>j. i \<le> j \<and> j < to \<longrightarrow> \<not> (m (alsa_fmt (formats ! j)) \<and> enc (formats ! j) = e) \<Longrightarrow>
   scan e m i to c = c"
proof (induction e m i to c rule: scan.induct)
  case (1 e m i to c)
  show ?case
  proof (cases "i < to")
    case False
    then show ?thesis by (subst scan.simps) simp
  next
    case lt: True
    from 1(4) have rest:
      "\<forall>j. i + 1 \<le> j \<and> j < to \<longrightarrow> \<not> (m (alsa_fmt (formats ! j)) \<and> enc (formats ! j) = e)"
      by simp
    from 1(4) lt have nomatch: "\<not> (m (alsa_fmt (formats ! i)) \<and> enc (formats ! i) = e)"
      by simp
    show ?thesis
    proof (cases "m (alsa_fmt (formats ! i))")
      case no: False
      from 1(2) [OF lt no 1(3) rest] lt no show ?thesis by (subst scan.simps) simp
    next
      case yes: True
      with nomatch have ne: "enc (formats ! i) \<noteq> e" by simp
      from 1(3) have "(if c = -1 then int i else c) \<noteq> -1" by simp
      from 1(1) [OF lt yes ne this rest] lt yes ne 1(3) show ?thesis
        by (subst scan.simps) simp
    qed
  qed
qed

lemma scan_first:
  "i \<le> k \<Longrightarrow> k < to \<Longrightarrow> m (alsa_fmt (formats ! k)) \<Longrightarrow>
   \<forall>j. i \<le> j \<and> j < k \<longrightarrow> \<not> m (alsa_fmt (formats ! j)) \<Longrightarrow>
   \<forall>j. i \<le> j \<and> j < to \<longrightarrow> \<not> (m (alsa_fmt (formats ! j)) \<and> enc (formats ! j) = e) \<Longrightarrow>
   scan e m i to (-1) = int k"
proof (induction "k - i" arbitrary: i)
  case 0
  then have ki: "k = i" by simp
  from "0.prems"(2,3,5) ki
  have ne: "enc (formats ! i) \<noteq> e" and
      rest: "\<forall>j. i + 1 \<le> j \<and> j < to \<longrightarrow> \<not> (m (alsa_fmt (formats ! j)) \<and> enc (formats ! j) = e)"
    by auto
  have "scan e m (i + 1) to (int i) = int i"
    by (rule scan_keeps_candidate [OF _ rest]) simp
  with "0.prems"(2,3) ki ne show ?case by (subst scan.simps) simp
next
  case (Suc n)
  then have lt: "i < k" and ik: "i + 1 \<le> k" and n: "n = k - (i + 1)" by simp_all
  with Suc.prems(4) have no: "\<not> m (alsa_fmt (formats ! i))" by simp
  from Suc.prems(4) have r1: "\<forall>j. i + 1 \<le> j \<and> j < k \<longrightarrow> \<not> m (alsa_fmt (formats ! j))"
    by simp
  from Suc.prems(5) have r2:
    "\<forall>j. i + 1 \<le> j \<and> j < to \<longrightarrow> \<not> (m (alsa_fmt (formats ! j)) \<and> enc (formats ! j) = e)"
    by simp
  from Suc.hyps(1) [OF n ik Suc.prems(2) Suc.prems(3) r1 r2] lt Suc.prems(2) no show ?case
    by (subst scan.simps) simp
qed

lemma descend_first_pass:
  "0 < to \<Longrightarrow> scan e m frm to c \<noteq> -1 \<Longrightarrow> descend e m frm to c = scan e m frm to c"
  by (subst descend.simps) (simp add: Let_def)

lemma descend_result:
  "frm \<le> to \<Longrightarrow>
   (descend e m frm to (-1) = -1 \<and> (\<forall>k<to. \<not> m (alsa_fmt (formats ! k)))) \<or>
   (\<exists>k. descend e m frm to (-1) = int k \<and> k < to \<and> m (alsa_fmt (formats ! k)))"
proof (induction e m frm to "-1 :: int" rule: descend.induct)
  case (1 e m frm to)
  show ?case
  proof (cases "0 < to")
    case False
    then show ?thesis by (subst (1 2) descend.simps) simp
  next
    case pos: True
    show ?thesis
    proof (cases "scan e m frm to (-1) = -1")
      case found: False
      from scan_cases [of e m frm to "-1"] found
      obtain k where "scan e m frm to (-1) = int k" "k < to" "m (alsa_fmt (formats ! k))"
        by auto
      with descend_first_pass [OF pos found] show ?thesis by auto
    next
      case none: True
      define bn where "bn = (if frm > 0 then bits (formats ! (frm - 1)) else 0)"
      have unfold: "descend e m frm to (-1) = descend e m (step_back bn frm) frm (-1)"
        using pos none by (subst descend.simps) (simp add: Let_def bn_def)
      from scan_none [OF none]
      have upper: "\<forall>k. frm \<le> k \<and> k < to \<longrightarrow> \<not> m (alsa_fmt (formats ! k))" by simp
      have "(descend e m (step_back bn frm) frm (-1) = -1 \<and> (\<forall>k<frm. \<not> m (alsa_fmt (formats ! k)))) \<or>
            (\<exists>k. descend e m (step_back bn frm) frm (-1) = int k \<and> k < frm \<and> m (alsa_fmt (formats ! k)))"
        using 1(1) [OF pos none [symmetric] _ refl refl refl] step_back_le [of bn frm]
        by (simp add: bn_def)
      then show ?thesis
      proof
        assume a: "descend e m (step_back bn frm) frm (-1) = -1 \<and> (\<forall>k<frm. \<not> m (alsa_fmt (formats ! k)))"
        have "\<not> m (alsa_fmt (formats ! k))" if "k < to" for k
          using a upper that by (cases "k < frm") simp_all
        with a unfold show ?thesis by simp
      next
        assume "\<exists>k. descend e m (step_back bn frm) frm (-1) = int k \<and> k < frm \<and> m (alsa_fmt (formats ! k))"
        then obtain k where "descend e m (step_back bn frm) frm (-1) = int k" "k < frm"
          "m (alsa_fmt (formats ! k))" by auto
        with unfold 1(2) show ?thesis by auto
      qed
    qed
  qed
qed


lemma find_from_le9: "find_from nbits 0 \<le> 9"
  by (simp add: find_from_0)

text \<open>Both forward scans leave their loops by the condition of the source, at an index
  inside the table: the bound in the model is never what stops them.\<close>

lemma find_from_stops_in_table:
  "find_from nbits 0 < length formats \<and>
   \<not> (bits (formats ! find_from nbits 0) < nbits \<and> bits (formats ! find_from nbits 0) \<noteq> 0)"
  by (simp add: find_from_0 formats_def)

lemma find_end_stops_in_table:
  "find_end (find_from nbits 0) < length formats \<and>
   bits (formats ! find_end (find_from nbits 0)) = 0"
  by (simp add: find_end_9 [OF find_from_le9] formats_def)

lemma select_format_unfold:
  "select_format e n m f =
     (let cand = descend e m (find_from n 0) 9 (-1)
      in if cand = -1 then (-1, e, n, f)
         else (0, enc (formats ! nat cand), bits (formats ! nat cand), nat cand))"
  by (auto simp add: select_format_def Let_def find_end_9 [OF find_from_le9])

lemma select_format_found:
  "descend e m (find_from n 0) 9 (-1) = int c \<Longrightarrow>
   select_format e n m f = (0, enc (formats ! c), bits (formats ! c), c)"
  by (simp add: select_format_unfold)

lemma select_format_none:
  "descend e m (find_from n 0) 9 (-1) = -1 \<Longrightarrow> select_format e n m f = (-1, e, n, f)"
  by (simp add: select_format_unfold)

text \<open>
  Claim C1. Whatever the requested encoding and bit depth and whatever the capability
  mask: if some entry of the catalog (indices 0 to 8) has its bit set in the mask,
  \<open>select_format\<close> returns 0 and stores a catalog index whose device format is set
  in the mask (the request is then the chosen entry's depth and encoding); if no entry
  of the catalog has its bit set, it returns -1 and the encoding, the bit depth and the
  format variable are what they were before the call.
\<close>

theorem select_format_supported_or_unmodified:
  "(if \<exists>i<9. mask' (alsa_fmt (formats ! i))
    then \<exists>c<9. mask' (alsa_fmt (formats ! c)) \<and>
           select_format encoding' nbits mask' format' =
             (0, enc (formats ! c), bits (formats ! c), c)
    else select_format encoding' nbits mask' format' = (-1, encoding', nbits, format'))"
proof -
  from descend_result [OF find_from_le9, of encoding' mask' nbits]
  show ?thesis
  proof
    assume "descend encoding' mask' (find_from nbits 0) 9 (-1) = -1 \<and>
            (\<forall>k<9. \<not> mask' (alsa_fmt (formats ! k)))"
    then show ?thesis by (simp add: select_format_none)
  next
    assume "\<exists>k. descend encoding' mask' (find_from nbits 0) 9 (-1) = int k \<and> k < 9 \<and>
              mask' (alsa_fmt (formats ! k))"
    then obtain k where k: "descend encoding' mask' (find_from nbits 0) 9 (-1) = int k"
      "k < 9" "mask' (alsa_fmt (formats ! k))" by blast
    from k(2,3) have "\<exists>i<9. mask' (alsa_fmt (formats ! i))" by blast
    moreover from k have "\<exists>c<9. mask' (alsa_fmt (formats ! c)) \<and>
           select_format encoding' nbits mask' format' =
             (0, enc (formats ! c), bits (formats ! c), c)"
      using select_format_found [OF k(1)] by blast
    ultimately show ?thesis by simp
  qed
qed

theorem select_format_supported_or_unmodified_witness:
  "(\<exists>c<9. only_u16_s8_u8 (alsa_fmt (formats ! c)) \<and>
      select_format SOX_ENCODING_SIGN2 16 only_u16_s8_u8 0 =
        (0, enc (formats ! c), bits (formats ! c), c)) \<and>
   select_format SOX_ENCODING_SIGN2 16 no_format 5 = (-1, SOX_ENCODING_SIGN2, 16, 5)"
proof -
  have "\<exists>i<9. only_u16_s8_u8 (alsa_fmt (formats ! i))"
    by (rule exI [of _ 3]) (simp add: only_u16_s8_u8_def formats_def)
  with select_format_supported_or_unmodified [of only_u16_s8_u8 SOX_ENCODING_SIGN2 16 0]
  have a: "\<exists>c<9. only_u16_s8_u8 (alsa_fmt (formats ! c)) \<and>
      select_format SOX_ENCODING_SIGN2 16 only_u16_s8_u8 0 =
        (0, enc (formats ! c), bits (formats ! c), c)" by simp
  have "\<not> (\<exists>i<9. no_format (alsa_fmt (formats ! i)))"
    by (simp add: no_format_def)
  with select_format_supported_or_unmodified [of no_format SOX_ENCODING_SIGN2 16 5]
  have b: "select_format SOX_ENCODING_SIGN2 16 no_format 5 = (-1, SOX_ENCODING_SIGN2, 16, 5)"
    by simp
  from a b show ?thesis by simp
qed

lemma select_format_example:
  "select_format SOX_ENCODING_SIGN2 16 only_u16_s8_u8 format' = (0, SOX_ENCODING_UNSIGNED, 16, 3)"
  by (simp add: select_format_unfold find_from_0 descend.simps scan.simps formats_def
      only_u16_s8_u8_def)

lemma least_in_range:
  fixes P :: "nat \<Rightarrow> bool"
  assumes "P k"
  obtains j where "P j" "j \<le> k" "\<forall>i<j. \<not> P i"
proof -
  have "P (LEAST j. P j)" using assms by (rule LeastI)
  moreover have "(LEAST j. P j) \<le> k" using assms by (rule Least_le)
  moreover have "\<forall>i<(LEAST j. P j). \<not> P i" using not_less_Least by blast
  ultimately show ?thesis using that by blast
qed

text \<open>
  Claim C3. If some catalog entry with at least the requested bit depth is supported by
  the mask, \<open>select_format\<close> succeeds with an entry \<open>c\<close> that is supported and has at
  least the requested depth, so it never drops to a lower depth; when an entry of that
  range is supported and has the requested encoding, \<open>c\<close> is the first such entry,
  and otherwise \<open>c\<close> is the first supported entry of the range. In particular a request
  for 16-bit signed against a mask of 16-bit unsigned and the two 8-bit formats selects
  index 3, the 16-bit unsigned entry.
\<close>

theorem select_format_stays_at_or_above:
  assumes k: "k < 9" "nbits \<le> bits (formats ! k)" "mask' (alsa_fmt (formats ! k))"
  shows "(\<exists>c<9. select_format encoding' nbits mask' format' =
                  (0, enc (formats ! c), bits (formats ! c), c) \<and>
           nbits \<le> bits (formats ! c) \<and> mask' (alsa_fmt (formats ! c)) \<and>
           (if \<exists>j<9. nbits \<le> bits (formats ! j) \<and> mask' (alsa_fmt (formats ! j)) \<and>
                     enc (formats ! j) = encoding'
            then enc (formats ! c) = encoding' \<and>
                 (\<forall>j<c. \<not> (nbits \<le> bits (formats ! j) \<and> mask' (alsa_fmt (formats ! j)) \<and>
                           enc (formats ! j) = encoding'))
            else (\<forall>j<c. \<not> (nbits \<le> bits (formats ! j) \<and> mask' (alsa_fmt (formats ! j)))))) \<and>
         select_format SOX_ENCODING_SIGN2 16 only_u16_s8_u8 format' =
           (0, SOX_ENCODING_UNSIGNED, 16, 3)"
proof -
  let ?from = "find_from nbits 0"
  let ?S = "\<lambda>j. ?from \<le> j \<and> j < 9 \<and> mask' (alsa_fmt (formats ! j))"
  let ?E = "\<lambda>j. ?S j \<and> enc (formats ! j) = encoding'"
  have range: "(?from \<le> j) = (nbits \<le> bits (formats ! j))" if "j < 9" for j
    using that by (rule bits_below_find_from)
  from k range [of k] have Sk: "?S k" by simp
  have example: "select_format SOX_ENCODING_SIGN2 16 only_u16_s8_u8 format' =
           (0, SOX_ENCODING_UNSIGNED, 16, 3)"
    by (rule select_format_example)
  have "\<exists>c<9. select_format encoding' nbits mask' format' =
                  (0, enc (formats ! c), bits (formats ! c), c) \<and>
           nbits \<le> bits (formats ! c) \<and> mask' (alsa_fmt (formats ! c)) \<and>
           (if \<exists>j<9. nbits \<le> bits (formats ! j) \<and> mask' (alsa_fmt (formats ! j)) \<and>
                     enc (formats ! j) = encoding'
            then enc (formats ! c) = encoding' \<and>
                 (\<forall>j<c. \<not> (nbits \<le> bits (formats ! j) \<and> mask' (alsa_fmt (formats ! j)) \<and>
                           enc (formats ! j) = encoding'))
            else (\<forall>j<c. \<not> (nbits \<le> bits (formats ! j) \<and> mask' (alsa_fmt (formats ! j)))))"
  proof (cases "\<exists>j. ?E j")
    case True
    then obtain j0 where "?E j0" by blast
    then obtain c where c: "?E c" and least: "\<forall>i<c. \<not> ?E i"
      by (rule least_in_range [of ?E])
    have "scan encoding' mask' ?from 9 (-1) = int c"
      using c least by (intro scan_exact) auto
    then have "descend encoding' mask' ?from 9 (-1) = int c"
      by (simp add: descend_first_pass)
    then have sel: "select_format encoding' nbits mask' format' =
                  (0, enc (formats ! c), bits (formats ! c), c)"
      by (rule select_format_found)
    have ex: "\<exists>j<9. nbits \<le> bits (formats ! j) \<and> mask' (alsa_fmt (formats ! j)) \<and>
                     enc (formats ! j) = encoding'"
      using c range [of c] by blast
    have first: "\<not> (nbits \<le> bits (formats ! j) \<and> mask' (alsa_fmt (formats ! j)) \<and>
                           enc (formats ! j) = encoding')" if "j < c" for j
    proof -
      from that c have "j < 9" by simp
      with range [of j] least that show ?thesis by auto
    qed
    from c range [of c] sel ex first show ?thesis by auto
  next
    case False
    from Sk obtain c where c: "?S c" and least: "\<forall>i<c. \<not> ?S i"
      by (rule least_in_range [of ?S])
    have "scan encoding' mask' ?from 9 (-1) = int c"
      using c least False by (intro scan_first) auto
    then have "descend encoding' mask' ?from 9 (-1) = int c"
      by (simp add: descend_first_pass)
    then have sel: "select_format encoding' nbits mask' format' =
                  (0, enc (formats ! c), bits (formats ! c), c)"
      by (rule select_format_found)
    have nex: "\<not> (\<exists>j<9. nbits \<le> bits (formats ! j) \<and> mask' (alsa_fmt (formats ! j)) \<and>
                     enc (formats ! j) = encoding')"
      using False range by blast
    have first: "\<not> (nbits \<le> bits (formats ! j) \<and> mask' (alsa_fmt (formats ! j)))"
      if "j < c" for j
    proof -
      from that c have "j < 9" by simp
      with range [of j] least that show ?thesis by auto
    qed
    from c range [of c] sel nex first show ?thesis by auto
  qed
  with example show ?thesis by blast
qed

theorem select_format_stays_at_or_above_witness:
  "(\<exists>c<9. select_format SOX_ENCODING_SIGN2 16 only_u16_s8_u8 0 =
                  (0, enc (formats ! c), bits (formats ! c), c) \<and>
           16 \<le> bits (formats ! c) \<and> only_u16_s8_u8 (alsa_fmt (formats ! c)) \<and>
           (\<forall>j<c. \<not> (16 \<le> bits (formats ! j) \<and> only_u16_s8_u8 (alsa_fmt (formats ! j))))) \<and>
   select_format SOX_ENCODING_SIGN2 16 only_u16_s8_u8 0 = (0, SOX_ENCODING_UNSIGNED, 16, 3)"
proof -
  have h: "(3::nat) < 9" "16 \<le> bits (formats ! 3)" "only_u16_s8_u8 (alsa_fmt (formats ! 3))"
    by (simp_all add: formats_def only_u16_s8_u8_def)
  have none: "\<not> (\<exists>j<9. 16 \<le> bits (formats ! j) \<and> only_u16_s8_u8 (alsa_fmt (formats ! j)) \<and>
                     enc (formats ! j) = SOX_ENCODING_SIGN2)"
  proof
    assume "\<exists>j<9. 16 \<le> bits (formats ! j) \<and> only_u16_s8_u8 (alsa_fmt (formats ! j)) \<and>
                     enc (formats ! j) = SOX_ENCODING_SIGN2"
    then obtain j where j: "j < 9" "16 \<le> bits (formats ! j)"
      "only_u16_s8_u8 (alsa_fmt (formats ! j))" "enc (formats ! j) = SOX_ENCODING_SIGN2"
      by blast
    from j(1) have "j \<le> 9" by simp
    then show False using j
      by (elim nat_le9_cases) (simp_all add: formats_def only_u16_s8_u8_def)
  qed
  note t = select_format_stays_at_or_above
      [where k = 3 and nbits = 16 and mask' = only_u16_s8_u8
         and encoding' = SOX_ENCODING_SIGN2 and format' = 0, OF h]
  from t obtain c where c: "c < 9"
    "select_format SOX_ENCODING_SIGN2 16 only_u16_s8_u8 0 =
       (0, enc (formats ! c), bits (formats ! c), c)"
    "16 \<le> bits (formats ! c)" "only_u16_s8_u8 (alsa_fmt (formats ! c))"
    "if \<exists>j<9. 16 \<le> bits (formats ! j) \<and> only_u16_s8_u8 (alsa_fmt (formats ! j)) \<and>
                     enc (formats ! j) = SOX_ENCODING_SIGN2
     then enc (formats ! c) = SOX_ENCODING_SIGN2 \<and>
          (\<forall>j<c. \<not> (16 \<le> bits (formats ! j) \<and> only_u16_s8_u8 (alsa_fmt (formats ! j)) \<and>
                    enc (formats ! j) = SOX_ENCODING_SIGN2))
     else (\<forall>j<c. \<not> (16 \<le> bits (formats ! j) \<and> only_u16_s8_u8 (alsa_fmt (formats ! j))))"
    by blast
  from c(5) none
  have "\<forall>j<c. \<not> (16 \<le> bits (formats ! j) \<and> only_u16_s8_u8 (alsa_fmt (formats ! j)))"
    by (simp only: if_False)
  with c(1-4) t show ?thesis by blast
qed

section \<open>Properties of the sample codec\<close>

lemma grid_bound:
  fixes u q m r :: int
  assumes "u = m * q" "u < m * r" "0 < m"
  shows "u \<le> m * r - m"
proof -
  from assms have "q < r" by (simp add: mult_less_cancel_left_pos)
  then have "q \<le> r - 1" by simp
  with assms(3) have "m * q \<le> m * (r - 1)" by (simp add: mult_left_mono)
  with assms(1) show ?thesis by (simp add: algebra_simps)
qed

lemma sint_grid_le:
  fixes x :: "32 word"
  assumes "take_bit n x = 0" "n \<le> 31"
  shows "sint x \<le> 2 ^ 31 - 2 ^ n"
proof (cases "uint x < 2 ^ 31")
  case True
  have "take_bit n (uint x) = 0"
    using assms(1) unsigned_take_bit_eq [of n x, where ?'a = int] by simp
  then have "2 ^ n dvd uint x"
    by (simp add: take_bit_eq_mod mod_eq_0_iff_dvd)
  then obtain q where q: "uint x = 2 ^ n * q" ..
  have p: "(2::int) ^ 31 = 2 ^ n * 2 ^ (31 - n)"
    using assms(2) by (simp flip: power_add)
  have "uint x \<le> 2 ^ n * 2 ^ (31 - n) - 2 ^ n"
    by (rule grid_bound [OF q]) (use True p in simp_all)
  with p have le: "uint x \<le> 2 ^ 31 - 2 ^ n" by simp
  have "signed_take_bit 31 (uint x) = uint x"
  proof (rule signed_take_bit_int_eq_self)
    have "(0::int) \<le> uint x" by simp
    moreover have "- (2 ^ 31) \<le> (0::int)" by simp
    ultimately show "- (2 ^ 31) \<le> uint x" by (rule order_trans [rotated])
    show "uint x < 2 ^ 31" by (rule True)
  qed
  then have "sint x = uint x"
    by (simp add: sint_uint)
  with le show ?thesis by simp
next
  case False
  then have "sint x \<le> uint x - 2 ^ 32"
    using signed_take_bit_int_less_eq [of 31 "uint x"] by (simp add: sint_uint)
  moreover have "uint x < 2 ^ 32" using uint_bounded [of x] by simp
  moreover have "(2::int) ^ n \<le> 2 ^ 31" by (rule power_increasing) (use assms(2) in simp_all)
  ultimately show ?thesis by simp
qed

lemma no_clip8:
  fixes x :: "32 word"
  assumes "take_bit 24 x = 0"
  shows "\<not> (SOX_SAMPLE_MAX - push_bit (31 - 8) 1 <s x)"
proof -
  have c: "SOX_SAMPLE_MAX - push_bit (31 - 8) 1 = (0x7F7FFFFF :: 32 word)"
    by (simp add: SOX_SAMPLE_MAX_def)
  have s: "sint (0x7F7FFFFF :: 32 word) = 0x7F7FFFFF" by simp
  from sint_grid_le [OF assms] show ?thesis
    unfolding c word_sless_alt s by simp
qed

lemma no_clip16:
  fixes x :: "32 word"
  assumes "take_bit 16 x = 0"
  shows "\<not> (SOX_SAMPLE_MAX - push_bit (31 - 16) 1 <s x)"
proof -
  have c: "SOX_SAMPLE_MAX - push_bit (31 - 16) 1 = (0x7FFF7FFF :: 32 word)"
    by (simp add: SOX_SAMPLE_MAX_def)
  have s: "sint (0x7FFF7FFF :: 32 word) = 0x7FFF7FFF" by simp
  from sint_grid_le [OF assms] show ?thesis
    unfolding c word_sless_alt s by simp
qed

lemma no_clip24:
  fixes x :: "32 word"
  assumes "take_bit 8 x = 0"
  shows "\<not> (SOX_SAMPLE_MAX - push_bit (31 - 24) 1 <s x)"
proof -
  have c: "SOX_SAMPLE_MAX - push_bit (31 - 24) 1 = (0x7FFFFF7F :: 32 word)"
    by (simp add: SOX_SAMPLE_MAX_def)
  have s: "sint (0x7FFFFF7F :: 32 word) = 0x7FFFFF7F" by simp
  from sint_grid_le [OF assms] show ?thesis
    unfolding c word_sless_alt s by simp
qed

lemma grid_bit:
  fixes x :: "32 word"
  assumes "take_bit n x = 0" "i < n"
  shows "\<not> bit x i"
proof
  assume "bit x i"
  with assms(2) have "bit (take_bit n x) i" by (simp add: bit_take_bit_iff)
  with assms(1) show False by simp
qed

lemma half_step_bit:
  "bit (push_bit (n - 1) (1 :: 32 word)) i \<Longrightarrow> 0 < n \<Longrightarrow> i < n"
  by (auto simp add: bit_exp_iff)

lemma drop_round:
  fixes x :: "32 word"
  assumes "take_bit n x = 0" "0 < n"
  shows "drop_bit n (x + push_bit (n - 1) 1) = drop_bit n x"
proof -
  have disj: "\<not> bit x i \<or> \<not> bit (push_bit (n - 1) (1 :: 32 word)) i" for i
    using grid_bit [OF assms(1)] half_step_bit [OF _ assms(2)] by blast
  have eq: "x + push_bit (n - 1) 1 = x OR push_bit (n - 1) 1"
    by (rule disjunctive_add) (rule disj)
  have "drop_bit n (x OR push_bit (n - 1) 1) = drop_bit n x"
  proof (rule bit_word_eqI)
    fix i assume "i < LENGTH(32)"
    have "\<not> bit (push_bit (n - 1) (1 :: 32 word)) (n + i)"
      using half_step_bit [of n "n + i"] assms(2) by auto
    then show "bit (drop_bit n (x OR push_bit (n - 1) 1)) i = bit (drop_bit n x) i"
      by (simp only: bit_drop_bit_eq bit_or_iff o_apply simp_thms)
  qed
  with eq show ?thesis by (simp only:)
qed

lemma to_signed_grid:
  fixes x :: "32 word"
  assumes "take_bit (32 - b) x = 0" "0 < b" "b < 32"
    and nc: "\<not> (SOX_SAMPLE_MAX - push_bit (31 - b) 1 <s x)"
  shows "SOX_SAMPLE_TO_SIGNED b x clips' = (drop_bit (32 - b) x, clips')"
proof -
  have e: "31 - b = (32 - b) - 1" by simp
  have "drop_bit (32 - b) (x + push_bit ((32 - b) - 1) 1) = drop_bit (32 - b) x"
    by (rule drop_round [OF assms(1)]) (use assms(3) in simp)
  then have "drop_bit (32 - b) (x + push_bit (31 - b) 1) = drop_bit (32 - b) x"
    by (simp only: e)
  with nc show ?thesis by (simp only: SOX_SAMPLE_TO_SIGNED_def if_False)
qed

subsection \<open>Bytes of an element\<close>

lemma byte_masks:
  "(0x000000FF :: 32 word) = mask 8"
  "(0x0000FF00 :: 32 word) = push_bit 8 (mask 8)"
  "(0x00FF0000 :: 32 word) = push_bit 16 (mask 8)"
  by (simp_all add: mask_eq_exp_minus_1)

lemma load16_store16: "load16 host_be' (store16 host_be' w @ rest) = Some w"
proof -
  have "ucast (ucast w :: 8 word) OR push_bit 8 (ucast (ucast (drop_bit 8 w) :: 8 word)) = w"
  proof (rule bit_word_eqI)
    fix i assume i: "i < LENGTH(16)"
    show "bit (ucast (ucast w :: 8 word) OR push_bit 8 (ucast (ucast (drop_bit 8 w) :: 8 word)) :: 16 word) i
            = bit w i"
    proof (cases "i < 8")
      case True
      then show ?thesis
        by (simp add: bit_or_iff bit_push_bit_iff bit_unsigned_iff)
    next
      case False
      then have "8 + (i - 8) = i" "i - 8 < 8" using i by simp_all
      with False i show ?thesis
        by (auto simp add: bit_or_iff bit_push_bit_iff bit_unsigned_iff bit_drop_bit_eq)
    qed
  qed
  then show ?thesis
    by (simp add: store16_def or.commute)
qed

lemma load32_store32: "load32 host_be' (store32 host_be' w @ rest) = Some w"
proof -
  have "ucast (ucast w :: 8 word) OR push_bit 8 (ucast (ucast (drop_bit 8 w) :: 8 word))
          OR push_bit 16 (ucast (ucast (drop_bit 16 w) :: 8 word))
          OR push_bit 24 (ucast (ucast (drop_bit 24 w) :: 8 word)) = w"
  proof (rule bit_word_eqI)
    fix i assume i: "i < LENGTH(32)"
    consider "i < 8" | "8 \<le> i" "i < 16" | "16 \<le> i" "i < 24" | "24 \<le> i" by linarith
    then show "bit (ucast (ucast w :: 8 word) OR push_bit 8 (ucast (ucast (drop_bit 8 w) :: 8 word))
          OR push_bit 16 (ucast (ucast (drop_bit 16 w) :: 8 word))
          OR push_bit 24 (ucast (ucast (drop_bit 24 w) :: 8 word)) :: 32 word) i = bit w i"
    proof cases
      case 1
      then show ?thesis
        by (simp add: bit_or_iff bit_push_bit_iff bit_unsigned_iff)
    next
      case 2
      then have "8 + (i - 8) = i" "i - 8 < 8" by simp_all
      with 2 i show ?thesis
        by (auto simp add: bit_or_iff bit_push_bit_iff bit_unsigned_iff bit_drop_bit_eq)
    next
      case 3
      then have "16 + (i - 16) = i" "i - 16 < 8" by simp_all
      with 3 i show ?thesis
        by (auto simp add: bit_or_iff bit_push_bit_iff bit_unsigned_iff bit_drop_bit_eq)
    next
      case 4
      then have "24 + (i - 24) = i" "i - 24 < 8" using i by simp_all
      with 4 i show ?thesis
        by (auto simp add: bit_or_iff bit_push_bit_iff bit_unsigned_iff bit_drop_bit_eq)
    qed
  qed
  then show ?thesis
    by (simp add: store32_def or.commute or.left_commute or.assoc)
qed

lemma lsx_swapw_involution: "lsx_swapw (lsx_swapw w) = w"
proof (rule bit_word_eqI)
  fix i assume i: "i < LENGTH(16)"
  show "bit (lsx_swapw (lsx_swapw w)) i = bit w i"
  proof (cases "i < 8")
    case True
    then show ?thesis
      by (simp add: lsx_swapw_def bit_or_iff bit_push_bit_iff bit_drop_bit_eq)
  next
    case False
    then have "8 + (i - 8) = i" "i - 8 < 8" "i - 8 + 8 = i" using i by simp_all
    with False i show ?thesis
      by (simp add: lsx_swapw_def bit_or_iff bit_push_bit_iff bit_drop_bit_eq)
  qed
qed

subsection \<open>Widening what was narrowed\<close>

lemma widen_signed8:
  fixes x :: "32 word"
  assumes "take_bit 24 x = 0"
  shows "push_bit 24 (scast (ucast (drop_bit 24 x) :: 8 word)) = x"
proof (rule bit_word_eqI)
  fix i assume i: "i < LENGTH(32)"
  show "bit (push_bit 24 (scast (ucast (drop_bit 24 x) :: 8 word) :: 32 word)) i = bit x i"
  proof (cases "i < 24")
    case True
    with grid_bit [OF assms True] show ?thesis by (simp add: bit_push_bit_iff)
  next
    case False
    then have "24 + (i - 24) = i" "i - 24 < 8" "min 7 (i - 24) = i - 24" using i by simp_all
    with False i show ?thesis
      by (simp add: bit_push_bit_iff bit_signed_iff bit_unsigned_iff bit_drop_bit_eq)
  qed
qed

lemma widen_unsigned8:
  fixes x :: "32 word"
  assumes "take_bit 24 x = 0"
  shows "push_bit 24 (ucast (ucast (drop_bit 24 x) :: 8 word)) = x"
proof (rule bit_word_eqI)
  fix i assume i: "i < LENGTH(32)"
  show "bit (push_bit 24 (ucast (ucast (drop_bit 24 x) :: 8 word) :: 32 word)) i = bit x i"
  proof (cases "i < 24")
    case True
    with grid_bit [OF assms True] show ?thesis by (simp add: bit_push_bit_iff)
  next
    case False
    then have "24 + (i - 24) = i" "i - 24 < 8" using i by simp_all
    with False i show ?thesis
      by (simp add: bit_push_bit_iff bit_unsigned_iff bit_drop_bit_eq)
  qed
qed

lemma widen_signed16:
  fixes x :: "32 word"
  assumes "take_bit 16 x = 0"
  shows "push_bit 16 (scast (ucast (drop_bit 16 x) :: 16 word)) = x"
proof (rule bit_word_eqI)
  fix i assume i: "i < LENGTH(32)"
  show "bit (push_bit 16 (scast (ucast (drop_bit 16 x) :: 16 word) :: 32 word)) i = bit x i"
  proof (cases "i < 16")
    case True
    with grid_bit [OF assms True] show ?thesis by (simp add: bit_push_bit_iff)
  next
    case False
    then have "16 + (i - 16) = i" "i - 16 < 16" "min 15 (i - 16) = i - 16" using i by simp_all
    with False i show ?thesis
      by (simp add: bit_push_bit_iff bit_signed_iff bit_unsigned_iff bit_drop_bit_eq)
  qed
qed

lemma widen_unsigned16:
  fixes x :: "32 word"
  assumes "take_bit 16 x = 0"
  shows "push_bit 16 (ucast (ucast (drop_bit 16 x) :: 16 word)) = x"
proof (rule bit_word_eqI)
  fix i assume i: "i < LENGTH(32)"
  show "bit (push_bit 16 (ucast (ucast (drop_bit 16 x) :: 16 word) :: 32 word)) i = bit x i"
  proof (cases "i < 16")
    case True
    with grid_bit [OF assms True] show ?thesis by (simp add: bit_push_bit_iff)
  next
    case False
    then have "16 + (i - 16) = i" "i - 16 < 16" using i by simp_all
    with False i show ?thesis
      by (simp add: bit_push_bit_iff bit_unsigned_iff bit_drop_bit_eq)
  qed
qed

lemma widen24:
  fixes x :: "32 word"
  assumes "take_bit 8 x = 0"
  shows "push_bit 8 (drop_bit 8 x) = x"
proof (rule bit_word_eqI)
  fix i assume i: "i < LENGTH(32)"
  show "bit (push_bit 8 (drop_bit 8 x)) i = bit x i"
  proof (cases "i < 8")
    case True
    with grid_bit [OF assms True] show ?thesis by (simp add: bit_push_bit_iff)
  next
    case False
    then have "8 + (i - 8) = i" using i by simp
    with False i show ?thesis
      by (simp add: bit_push_bit_iff bit_drop_bit_eq)
  qed
qed

lemma flip8:
  "push_bit 24 (ucast ((v :: 8 word) XOR ucast (SOX_INT_MIN 8)) :: 32 word) XOR SOX_SAMPLE_NEG
     = push_bit 24 (ucast v)"
proof -
  have m: "ucast (SOX_INT_MIN 8) = (0x80 :: 8 word)" by (simp add: SOX_INT_MIN_def)
  have "push_bit 24 (ucast (v XOR 0x80) :: 32 word) = push_bit 24 (ucast v) XOR 0x80000000"
    by (simp add: unsigned_xor_eq)
  then show ?thesis by (simp add: m SOX_SAMPLE_NEG_def xor.assoc)
qed

lemma flip16:
  "push_bit 16 (ucast ((v :: 16 word) XOR ucast (SOX_INT_MIN 16)) :: 32 word) XOR SOX_SAMPLE_NEG
     = push_bit 16 (ucast v)"
proof -
  have m: "ucast (SOX_INT_MIN 16) = (0x8000 :: 16 word)" by (simp add: SOX_INT_MIN_def)
  have "push_bit 16 (ucast (v XOR 0x8000) :: 32 word) = push_bit 16 (ucast v) XOR 0x80000000"
    by (simp add: unsigned_xor_eq)
  then show ?thesis by (simp add: m SOX_SAMPLE_NEG_def xor.assoc)
qed

lemma flip24:
  "push_bit 8 ((v :: 32 word) XOR SOX_INT_MIN 24) XOR SOX_SAMPLE_NEG = push_bit 8 v"
proof -
  have "push_bit 8 (v XOR 0x800000) = push_bit 8 v XOR (0x80000000 :: 32 word)"
    by simp
  then show ?thesis by (simp add: SOX_INT_MIN_def SOX_SAMPLE_NEG_def xor.assoc)
qed

lemma swap_cast16:
  "push_bit 16 (scast (v :: 16 word) :: 32 word) = push_bit 16 (ucast v)"
proof (rule bit_word_eqI)
  fix i assume i: "i < LENGTH(32)"
  show "bit (push_bit 16 (scast v :: 32 word)) i = bit (push_bit 16 (ucast v :: 32 word)) i"
  proof (cases "i < 16")
    case True
    then show ?thesis by (simp add: bit_push_bit_iff)
  next
    case False
    then have "i - 16 < 16" "min 15 (i - 16) = i - 16" using i by simp_all
    with False i show ?thesis
      by (simp add: bit_push_bit_iff bit_signed_iff bit_unsigned_iff)
  qed
qed

lemma three_bytes:
  fixes t :: "32 word"
  shows "ucast (t AND 0x000000FF) = (ucast t :: 8 word)"
    and "ucast (drop_bit 8 (t AND 0x0000FF00)) = (ucast (drop_bit 8 t) :: 8 word)"
    and "ucast (drop_bit 16 (t AND 0x00FF0000)) = (ucast (drop_bit 16 t) :: 8 word)"
proof -
  show "ucast (t AND 0x000000FF) = (ucast t :: 8 word)"
    unfolding byte_masks
    by (rule bit_word_eqI) (auto simp add: bit_unsigned_iff bit_and_iff bit_mask_iff)
  show "ucast (drop_bit 8 (t AND 0x0000FF00)) = (ucast (drop_bit 8 t) :: 8 word)"
    unfolding byte_masks
    by (rule bit_word_eqI)
      (auto simp add: bit_unsigned_iff bit_and_iff bit_mask_iff bit_drop_bit_eq bit_push_bit_iff)
  show "ucast (drop_bit 16 (t AND 0x00FF0000)) = (ucast (drop_bit 16 t) :: 8 word)"
    unfolding byte_masks
    by (rule bit_word_eqI)
      (auto simp add: bit_unsigned_iff bit_and_iff bit_mask_iff bit_drop_bit_eq bit_push_bit_iff)
qed

lemma assemble3:
  fixes t :: "32 word"
  shows "push_bit 8 (ucast (ucast t :: 8 word)) OR push_bit 16 (ucast (ucast (drop_bit 8 t) :: 8 word))
           OR push_bit 24 (ucast (ucast (drop_bit 16 t) :: 8 word)) = push_bit 8 t"
proof (rule bit_word_eqI)
  fix i assume i: "i < LENGTH(32)"
  consider "i < 8" | "8 \<le> i" "i < 16" | "16 \<le> i" "i < 24" | "24 \<le> i" by linarith
  then show "bit (push_bit 8 (ucast (ucast t :: 8 word)) OR push_bit 16 (ucast (ucast (drop_bit 8 t) :: 8 word))
           OR push_bit 24 (ucast (ucast (drop_bit 16 t) :: 8 word)) :: 32 word) i = bit (push_bit 8 t) i"
  proof cases
    case 1
    then show ?thesis by (simp add: bit_or_iff bit_push_bit_iff)
  next
    case 2
    then have "i - 8 < 8" by simp
    with 2 i show ?thesis
      by (auto simp add: bit_or_iff bit_push_bit_iff bit_unsigned_iff bit_drop_bit_eq)
  next
    case 3
    then have "8 + (i - 16) = i - 8" "i - 16 < 8" "\<not> i - 8 < 8" by simp_all
    with 3 i show ?thesis
      by (auto simp add: bit_or_iff bit_push_bit_iff bit_unsigned_iff bit_drop_bit_eq)
  next
    case 4
    then have "16 + (i - 24) = i - 8" "i - 24 < 8" "\<not> i - 8 < 8" "\<not> i - 16 < 8"
      using i by simp_all
    with 4 i show ?thesis
      by (auto simp add: bit_or_iff bit_push_bit_iff bit_unsigned_iff bit_drop_bit_eq)
  qed
qed

subsection \<open>Round trips of one sample\<close>

lemma to_signed8:
  "take_bit 24 x = 0 \<Longrightarrow> SOX_SAMPLE_TO_SIGNED 8 x clips' = (drop_bit 24 x, clips')"
  using to_signed_grid [of 8 x clips'] no_clip8 [of x] by simp

lemma to_signed16:
  "take_bit 16 x = 0 \<Longrightarrow> SOX_SAMPLE_TO_SIGNED 16 x clips' = (drop_bit 16 x, clips')"
  using to_signed_grid [of 16 x clips'] no_clip16 [of x] by simp

lemma to_signed24:
  "take_bit 8 x = 0 \<Longrightarrow> SOX_SAMPLE_TO_SIGNED 24 x clips' = (drop_bit 8 x, clips')"
  using to_signed_grid [of 24 x clips'] no_clip24 [of x] by simp

lemma roundtrip_S8:
  assumes "take_bit 24 x = 0"
  shows "get_S8 (fst (put_S8 x clips') @ rest) = Some x" and "snd (put_S8 x clips') = clips'"
    and "length (fst (put_S8 x clips')) = 1"
  using widen_signed8 [OF assms]
  by (simp_all add: put_S8_def get_S8_def SOX_SAMPLE_TO_SIGNED_8BIT_def to_signed8 [OF assms]
      SOX_SIGNED_8BIT_TO_SAMPLE_def SOX_SIGNED_TO_SAMPLE_def)

lemma roundtrip_U8:
  assumes "take_bit 24 x = 0"
  shows "get_U8 (fst (put_U8 x clips') @ rest) = Some x" and "snd (put_U8 x clips') = clips'"
    and "length (fst (put_U8 x clips')) = 1"
  using widen_unsigned8 [OF assms] flip8 [of "ucast (drop_bit 24 x)"]
  by (simp_all add: put_U8_def get_U8_def SOX_SAMPLE_TO_UNSIGNED_8BIT_def
      SOX_SAMPLE_TO_SIGNED_8BIT_def to_signed8 [OF assms]
      SOX_UNSIGNED_8BIT_TO_SAMPLE_def SOX_UNSIGNED_TO_SAMPLE_def SOX_SIGNED_TO_SAMPLE_def)

lemma roundtrip_S16:
  assumes "take_bit 16 x = 0"
  shows "get_S16 host_be' reverse_bytes' (fst (put_S16 host_be' reverse_bytes' x clips') @ rest) = Some x"
    and "snd (put_S16 host_be' reverse_bytes' x clips') = clips'"
    and "length (fst (put_S16 host_be' reverse_bytes' x clips')) = 2"
  using widen_signed16 [OF assms]
  by (simp_all add: put_S16_def get_S16_def SOX_SAMPLE_TO_SIGNED_16BIT_def to_signed16 [OF assms]
      SOX_SIGNED_16BIT_TO_SAMPLE_def SOX_SIGNED_TO_SAMPLE_def load16_store16
      lsx_swapw_involution) (simp add: store16_def)

lemma roundtrip_U16:
  assumes "take_bit 16 x = 0"
  shows "get_U16 host_be' reverse_bytes' (fst (put_U16 host_be' reverse_bytes' x clips') @ rest) = Some x"
    and "snd (put_U16 host_be' reverse_bytes' x clips') = clips'"
    and "length (fst (put_U16 host_be' reverse_bytes' x clips')) = 2"
  using widen_unsigned16 [OF assms] flip16 [of "ucast (drop_bit 16 x)"]
  by (simp_all add: put_U16_def get_U16_def SOX_SAMPLE_TO_UNSIGNED_16BIT_def
      SOX_SAMPLE_TO_SIGNED_16BIT_def to_signed16 [OF assms]
      SOX_UNSIGNED_16BIT_TO_SAMPLE_def SOX_UNSIGNED_TO_SAMPLE_def SOX_SIGNED_TO_SAMPLE_def
      load16_store16 lsx_swapw_involution) (simp add: store16_def)

lemma roundtrip_S24:
  assumes "take_bit 8 x = 0"
  shows "get_S24 host_be' (fst (put_S24 host_be' x clips') @ rest) = Some x"
    and "snd (put_S24 host_be' x clips') = clips'"
    and "length (fst (put_S24 host_be' x clips')) = 4"
  using widen24 [OF assms]
  by (simp_all add: put_S24_def get_S24_def SOX_SAMPLE_TO_SIGNED_24BIT_def to_signed24 [OF assms]
      SOX_SIGNED_24BIT_TO_SAMPLE_def SOX_SIGNED_TO_SAMPLE_def load32_store32)
    (simp add: store32_def)

lemma roundtrip_U24:
  assumes "take_bit 8 x = 0"
  shows "get_U24 host_be' (fst (put_U24 host_be' x clips') @ rest) = Some x"
    and "snd (put_U24 host_be' x clips') = clips'"
    and "length (fst (put_U24 host_be' x clips')) = 4"
  using widen24 [OF assms] flip24 [of "drop_bit 8 x"]
  by (simp_all add: put_U24_def get_U24_def SOX_SAMPLE_TO_UNSIGNED_24BIT_def
      SOX_SAMPLE_TO_SIGNED_24BIT_def to_signed24 [OF assms]
      SOX_UNSIGNED_24BIT_TO_SAMPLE_def SOX_UNSIGNED_TO_SAMPLE_def SOX_SIGNED_TO_SAMPLE_def
      load32_store32) (simp add: store32_def)

lemma put_S24_3LE_bytes:
  "fst (put_S24_3LE x clips') =
     [ucast (fst (SOX_SAMPLE_TO_SIGNED_24BIT x clips')),
      ucast (drop_bit 8 (fst (SOX_SAMPLE_TO_SIGNED_24BIT x clips'))),
      ucast (drop_bit 16 (fst (SOX_SAMPLE_TO_SIGNED_24BIT x clips')))]"
  by (simp add: put_S24_3LE_def three_bytes split: prod.split)

lemma get_S24_3LE_bytes:
  "get_S24_3LE (b0 # b1 # b2 # rest) =
     Some (push_bit 8 (ucast b0) OR push_bit 16 (ucast b1) OR push_bit 24 (ucast b2))"
  by (simp add: SOX_SIGNED_24BIT_TO_SAMPLE_def SOX_SIGNED_TO_SAMPLE_def)

lemma roundtrip_S24_3LE:
  assumes "take_bit 8 x = 0"
  shows "get_S24_3LE (fst (put_S24_3LE x clips') @ rest) = Some x"
    and "snd (put_S24_3LE x clips') = clips'"
    and "length (fst (put_S24_3LE x clips')) = 3"
proof -
  have t: "SOX_SAMPLE_TO_SIGNED_24BIT x clips' = (drop_bit 8 x, clips')"
    by (simp add: SOX_SAMPLE_TO_SIGNED_24BIT_def to_signed24 [OF assms])
  show "get_S24_3LE (fst (put_S24_3LE x clips') @ rest) = Some x"
    unfolding put_S24_3LE_bytes t
    using assemble3 [of "drop_bit 8 x"] widen24 [OF assms]
    by (simp add: SOX_SIGNED_24BIT_TO_SAMPLE_def SOX_SIGNED_TO_SAMPLE_def)
  show "snd (put_S24_3LE x clips') = clips'"
    by (simp add: put_S24_3LE_def t)
  show "length (fst (put_S24_3LE x clips')) = 3"
    by (simp add: put_S24_3LE_bytes)
qed

lemma roundtrip_S32:
  shows "get_S32 host_be' (fst (put_S32 host_be' x clips') @ rest) = Some x"
    and "snd (put_S32 host_be' x clips') = clips'"
    and "length (fst (put_S32 host_be' x clips')) = 4"
  by (simp_all add: put_S32_def get_S32_def SOX_SAMPLE_TO_SIGNED_32BIT_def
      SOX_SIGNED_32BIT_TO_SAMPLE_def load32_store32) (simp add: store32_def)

lemma roundtrip_U32:
  shows "get_U32 host_be' (fst (put_U32 host_be' x clips') @ rest) = Some x"
    and "snd (put_U32 host_be' x clips') = clips'"
    and "length (fst (put_U32 host_be' x clips')) = 4"
  by (simp_all add: put_U32_def get_U32_def SOX_SAMPLE_TO_UNSIGNED_32BIT_def
      SOX_UNSIGNED_32BIT_TO_SAMPLE_def load32_store32 xor.assoc SOX_SAMPLE_NEG_def)
    (simp add: store32_def)


text \<open>
  Claim C2, as amended. For each of the nine layouts of the catalog and every canonical
  sample that the layout represents exactly, that is, whose low \<open>32 - bits\<close> bits
  are zero (every sample, for the two 32-bit layouts), on either host byte order and
  with either setting of the byte-swap flag: \<open>write_\<close> stores the sample in the
  layout's number of bytes without counting a clip, and \<open>read_\<close> reads the same
  sample back from these bytes. The packed 24-bit layout does not depend on the host
  byte order or on the byte-swap flag: its three bytes are bits 0-7, 8-15 and 16-23 of
  the 24-bit device value, in this order, and on reading, the first byte lands in bits
  8-15 of the canonical sample, the second in bits 16-23 and the third in bits 24-31.
\<close>

theorem codec_roundtrip_exact_samples:
  assumes "i < 9" and "take_bit (32 - bits (formats ! i)) x = 0"
  shows "(\<exists>put get.
            encode_sample host_be' reverse_bytes' (alsa_fmt (formats ! i)) = Some put \<and>
            decode_sample host_be' reverse_bytes' (alsa_fmt (formats ! i)) = Some get \<and>
            get (fst (put x clips') @ rest) = Some x \<and>
            snd (put x clips') = clips' \<and>
            length (fst (put x clips')) = bytes (formats ! i)) \<and>
         encode_sample host_be' reverse_bytes' SND_PCM_FORMAT_S24_3LE = Some put_S24_3LE \<and>
         decode_sample host_be' reverse_bytes' SND_PCM_FORMAT_S24_3LE = Some get_S24_3LE \<and>
         fst (put_S24_3LE y clips') =
           [ucast (fst (SOX_SAMPLE_TO_SIGNED_24BIT y clips')),
            ucast (drop_bit 8 (fst (SOX_SAMPLE_TO_SIGNED_24BIT y clips'))),
            ucast (drop_bit 16 (fst (SOX_SAMPLE_TO_SIGNED_24BIT y clips')))] \<and>
         get_S24_3LE (b0 # b1 # b2 # rest) =
           Some (push_bit 8 (ucast b0) OR push_bit 16 (ucast b1) OR push_bit 24 (ucast b2))"
proof -
  from assms(1) have "i \<le> 9" and "i \<noteq> 9" by simp_all
  then have "\<exists>put get.
            encode_sample host_be' reverse_bytes' (alsa_fmt (formats ! i)) = Some put \<and>
            decode_sample host_be' reverse_bytes' (alsa_fmt (formats ! i)) = Some get \<and>
            get (fst (put x clips') @ rest) = Some x \<and>
            snd (put x clips') = clips' \<and>
            length (fst (put x clips')) = bytes (formats ! i)"
    using assms(2)
  proof (elim nat_le9_cases)
    assume "i = 0" and "take_bit (32 - bits (formats ! i)) x = 0"
    then show ?thesis by (simp add: formats_def roundtrip_S8)
  next
    assume "i = 1" and "take_bit (32 - bits (formats ! i)) x = 0"
    then show ?thesis by (simp add: formats_def roundtrip_U8)
  next
    assume "i = 2" and "take_bit (32 - bits (formats ! i)) x = 0"
    then show ?thesis by (simp add: formats_def roundtrip_S16)
  next
    assume "i = 3" and "take_bit (32 - bits (formats ! i)) x = 0"
    then show ?thesis by (simp add: formats_def roundtrip_U16)
  next
    assume "i = 4" and "take_bit (32 - bits (formats ! i)) x = 0"
    then show ?thesis by (simp add: formats_def roundtrip_S24)
  next
    assume "i = 5" and "take_bit (32 - bits (formats ! i)) x = 0"
    then show ?thesis by (simp add: formats_def roundtrip_U24)
  next
    assume "i = 6" and "take_bit (32 - bits (formats ! i)) x = 0"
    then show ?thesis by (simp add: formats_def roundtrip_S24_3LE)
  next
    assume "i = 7"
    then show ?thesis by (simp add: formats_def roundtrip_S32)
  next
    assume "i = 8"
    then show ?thesis by (simp add: formats_def roundtrip_U32)
  next
    assume "i = 9" and "i \<noteq> 9"
    then show ?thesis by simp
  qed
  then show ?thesis
    by (simp add: put_S24_3LE_bytes get_S24_3LE_bytes del: get_S24_3LE.simps)
qed

theorem codec_roundtrip_exact_samples_witness:
  "(6::nat) < 9 \<and> take_bit (32 - bits (formats ! 6)) (0x12345600 :: sox_sample_t) = 0 \<and>
   get_S24_3LE (fst (put_S24_3LE 0x12345600 0)) = Some 0x12345600 \<and>
   snd (put_S24_3LE 0x12345600 0) = 0"
proof -
  have h: "(6::nat) < 9" "take_bit (32 - bits (formats ! 6)) (0x12345600 :: sox_sample_t) = 0"
    by (simp_all add: formats_def)
  have "\<exists>put get.
      encode_sample False False (alsa_fmt (formats ! 6)) = Some put \<and>
      decode_sample False False (alsa_fmt (formats ! 6)) = Some get \<and>
      get (fst (put (0x12345600 :: sox_sample_t) 0) @ []) = Some 0x12345600 \<and>
      snd (put 0x12345600 0) = 0 \<and>
      length (fst (put 0x12345600 0)) = bytes (formats ! 6)"
    by (rule codec_roundtrip_exact_samples
        [where i = 6 and x = "0x12345600" and host_be' = False and reverse_bytes' = False
          and clips' = 0 and rest = "[]", OF h, THEN conjunct1])
  then obtain put get where pg:
      "encode_sample False False (alsa_fmt (formats ! 6)) = Some put"
      "decode_sample False False (alsa_fmt (formats ! 6)) = Some get"
      "get (fst (put (0x12345600 :: sox_sample_t) 0) @ []) = Some 0x12345600"
      "snd (put 0x12345600 0) = 0"
    by blast
  from pg(1,2) have "put = put_S24_3LE" "get = get_S24_3LE"
    by (simp_all add: formats_def)
  with pg(3,4)
  have "get_S24_3LE (fst (put_S24_3LE 0x12345600 0)) = Some 0x12345600 \<and>
        snd (put_S24_3LE 0x12345600 0) = 0"
    by (simp only: append_Nil2 simp_thms)
  with h show ?thesis by simp
qed

text \<open>
  The claim as stated fails: the canonical sample 1 lies inside the range of the signed
  8-bit layout (encoding it does not saturate and counts no clip), but it is stored as
  the byte 0, which reads back as the sample 0.
\<close>

theorem codec_roundtrip_counterexample:
  "encode_sample False False (alsa_fmt (formats ! 0)) = Some put_S8 \<and>
   decode_sample False False (alsa_fmt (formats ! 0)) = Some get_S8 \<and>
   \<not> (SOX_SAMPLE_MAX - push_bit (31 - 8) 1 <s (1 :: sox_sample_t)) \<and>
   put_S8 1 0 = ([0], 0) \<and>
   get_S8 (fst (put_S8 1 0)) = Some 0 \<and>
   get_S8 (fst (put_S8 1 0)) \<noteq> Some 1"
proof -
  have c: "SOX_SAMPLE_MAX - push_bit (31 - 8) 1 = (0x7F7FFFFF :: 32 word)"
    by (simp add: SOX_SAMPLE_MAX_def)
  have s: "sint (0x7F7FFFFF :: 32 word) = 0x7F7FFFFF" by simp
  have nc: "\<not> (SOX_SAMPLE_MAX - push_bit (31 - 8) 1 <s (1 :: sox_sample_t))"
    unfolding c word_sless_alt s by simp
  then have p: "put_S8 1 0 = ([0], 0)"
    by (simp add: put_S8_def SOX_SAMPLE_TO_SIGNED_8BIT_def SOX_SAMPLE_TO_SIGNED_def
        drop_bit_eq_div)
  have g: "get_S8 [0] = Some 0"
    by (simp add: get_S8_def SOX_SIGNED_8BIT_TO_SAMPLE_def SOX_SIGNED_TO_SAMPLE_def)
  from nc p g show ?thesis by (simp add: formats_def)
qed

section \<open>Properties of the negotiation\<close>

lemma underscore_ok:
  "0 \<le> err \<Longrightarrow> underscore c name err m p s rest = rest (log_call c s)"
  by (simp add: underscore_def)

lemma underscore_fail:
  "err < 0 \<Longrightarrow> underscore c name err m p s rest =
     setup_error m p (lsx_fail_errno (log_call c s) SOX_EPERM (Call_error name err))"
  by (simp add: underscore_def)

lemma ulong_id: "x < 2 ^ 64 \<Longrightarrow> ulong x = x"
  by (simp add: ulong_def)

lemma want_buf_len_value:
  assumes "bufsiz s * 8 < 2 ^ 64"
  shows "buf_len (want_buf_len s) = bufsiz s * 8 div (bytes (formats ! format s) * channels s)"
  using assms by (simp add: want_buf_len_def ulong_id div_mult2_eq)

lemma range_limit_bound:
  assumes "lo < 2 ^ 64" "x < 2 ^ 64"
  shows "range_limit x lo hi < 2 ^ 64"
proof -
  have "range_limit x lo hi \<le> max x lo" by (simp add: range_limit_def)
  also have "\<dots> < 2 ^ 64" using assms by (simp only: max_less_iff_conj simp_thms)
  finally show ?thesis .
qed

lemma catalog_entry:
  assumes "i < 9"
  shows "i < length formats" and "0 < bytes (formats ! i)"
    and "element_size (alsa_fmt (formats ! i)) = bytes (formats ! i)"
    and "decode_sample hb rb (alsa_fmt (formats ! i)) \<noteq> None"
    and "encode_sample hb rb (alsa_fmt (formats ! i)) \<noteq> None"
proof -
  from assms have i: "i \<le> 9" "i \<noteq> 9" by simp_all
  show "i < length formats" using assms by (simp add: formats_def)
  from i show "0 < bytes (formats ! i)"
    by (elim nat_le9_cases) (simp_all add: formats_def)
  from i show "element_size (alsa_fmt (formats ! i)) = bytes (formats ! i)"
    by (elim nat_le9_cases) (simp_all add: formats_def)
  from i show "decode_sample hb rb (alsa_fmt (formats ! i)) \<noteq> None"
    by (elim nat_le9_cases) (simp_all add: formats_def)
  from i show "encode_sample hb rb (alsa_fmt (formats ! i)) \<noteq> None"
    by (elim nat_le9_cases) (simp_all add: formats_def)
qed


lemma derive_period_value:
  assumes "buf_len s < 2 ^ 64" "lo < 2 ^ 64"
  shows "period (derive_period lo hi s) = range_limit (buf_len s) lo hi div 8"
    and "buf_len (derive_period lo hi s) = range_limit (buf_len s) lo hi div 8 * 8"
proof -
  show "period (derive_period lo hi s) = range_limit (buf_len s) lo hi div 8"
    by (simp add: derive_period_def Let_def)
  have "range_limit (buf_len s) lo hi div 8 * 8 \<le> range_limit (buf_len s) lo hi"
    by simp
  also have "\<dots> < 2 ^ 64" by (rule range_limit_bound [OF assms(2) assms(1)])
  finally show "buf_len (derive_period lo hi s) = range_limit (buf_len s) lo hi div 8 * 8"
    by (simp add: derive_period_def Let_def ulong_id)
qed

lemma setup_buffers_reaches_test:
  assumes "format s < 9" "0 < channels s"
    and "0 \<le> fst (snd_pcm_hw_params_get_buffer_size_min dev)"
    and "0 \<le> fst (snd_pcm_hw_params_get_buffer_size_max dev)"
    and "0 \<le> fst (snd_pcm_hw_params_set_period_size_near dev (period (requested dev s)))"
    and "0 \<le> fst (snd_pcm_hw_params_set_buffer_size_near dev (buf_len (requested dev s)))"
  shows "setup_buffers dev s =
           (if buf_len (negotiated dev s) < ulong (period (negotiated dev s) * 2)
            then setup_error False True
                   (lsx_fail_errno (negotiated dev s) SOX_EPERM Buffer_too_small)
            else setup_commit dev (negotiated dev s))"
proof -
  have tab: "\<not> length formats \<le> format s" "bytes (formats ! format s) \<noteq> 0"
    using catalog_entry(1,2) [OF assms(1)] by simp_all
  have w: "\<not> (length formats \<le> format s \<or> bytes (formats ! format s) = 0 \<or> channels s = 0)"
    using tab assms(2) by simp
  show ?thesis
    unfolding setup_buffers_def
    by (simp only: w if_False Let_def underscore_ok [OF assms(3)] underscore_ok [OF assms(4)]
        requested_def [symmetric])
      (simp add: underscore_ok assms(5) assms(6) negotiated_def Let_def log_call_def)
qed

lemma requested_values:
  assumes "bufsiz s * 8 < 2 ^ 64" "snd (snd_pcm_hw_params_get_buffer_size_min dev) < 2 ^ 64"
  shows "period (requested dev s) =
           range_limit (bufsiz s * 8 div (bytes (formats ! format s) * channels s))
             (snd (snd_pcm_hw_params_get_buffer_size_min dev))
             (snd (snd_pcm_hw_params_get_buffer_size_max dev)) div 8"
    and "buf_len (requested dev s) = period (requested dev s) * 8"
    and "calls (requested dev s) =
           calls s @ [Snd_pcm_hw_params_get_buffer_size_min, Snd_pcm_hw_params_get_buffer_size_max]"
proof -
  let ?w = "log_call Snd_pcm_hw_params_get_buffer_size_max
         (log_call Snd_pcm_hw_params_get_buffer_size_min (want_buf_len s))"
  have b: "buf_len ?w = bufsiz s * 8 div (bytes (formats ! format s) * channels s)"
    using want_buf_len_value [OF assms(1)] by (simp add: log_call_def)
  have "bufsiz s * 8 div (bytes (formats ! format s) * channels s) \<le> bufsiz s * 8"
    by (rule div_le_dividend)
  also note assms(1)
  finally have lt: "buf_len ?w < 2 ^ 64" by (simp only: b)
  from derive_period_value [OF lt assms(2)] b
  show "period (requested dev s) =
           range_limit (bufsiz s * 8 div (bytes (formats ! format s) * channels s))
             (snd (snd_pcm_hw_params_get_buffer_size_min dev))
             (snd (snd_pcm_hw_params_get_buffer_size_max dev)) div 8"
    and "buf_len (requested dev s) = period (requested dev s) * 8"
    by (simp_all add: requested_def)
  show "calls (requested dev s) =
           calls s @ [Snd_pcm_hw_params_get_buffer_size_min, Snd_pcm_hw_params_get_buffer_size_max]"
    by (simp add: requested_def derive_period_def Let_def log_call_def want_buf_len_def)
qed

lemma negotiated_values:
  shows "period (negotiated dev s) =
           snd (snd_pcm_hw_params_set_period_size_near dev (period (requested dev s)))"
    and "buf_len (negotiated dev s) =
           snd (snd_pcm_hw_params_set_buffer_size_near dev (buf_len (requested dev s)))"
    and "calls (negotiated dev s) =
           calls (requested dev s) @
             [Snd_pcm_hw_params_set_period_size_near (period (requested dev s)),
              Snd_pcm_hw_params_set_buffer_size_near (buf_len (requested dev s))]"
  by (simp_all add: negotiated_def Let_def log_call_def)

lemma setup_commit_hw_params_fails:
  assumes "snd_pcm_hw_params dev < 0"
  shows "setup_commit dev t =
           Returns (SOX_EOF,
             t\<lparr>sox_errno := SOX_EPERM,
               sox_errstr := Call_error ''snd_pcm_hw_params'' (snd_pcm_hw_params dev),
               calls := calls t @ [Snd_pcm_hw_params, Snd_pcm_hw_params_free]\<rparr>)"
  using assms
  by (simp add: setup_commit_def underscore_def setup_error_def Let_def log_call_def
      lsx_fail_errno_def)

lemma setup_commit_prepare_fails:
  assumes "0 \<le> snd_pcm_hw_params dev" "snd_pcm_prepare dev < 0"
  shows "setup_commit dev t =
           Returns (SOX_EOF,
             t\<lparr>sox_errno := SOX_EPERM,
               sox_errstr := Call_error ''snd_pcm_prepare'' (snd_pcm_prepare dev),
               calls := calls t @ [Snd_pcm_hw_params, Snd_pcm_hw_params_free, Snd_pcm_prepare]\<rparr>)"
  using assms
  by (simp add: setup_commit_def underscore_def setup_error_def Let_def log_call_def
      lsx_fail_errno_def)

lemma setup_commit_proceeds:
  assumes "0 \<le> snd_pcm_hw_params dev" "0 \<le> snd_pcm_prepare dev"
  shows "setup_commit dev t =
           (let samples = ulong (buf_len t * channels t);
                newsize = ulong (samples * bytes (formats ! format t));
                c = t\<lparr>calls := calls t @
                             [Snd_pcm_hw_params, Snd_pcm_hw_params_free, Snd_pcm_prepare],
                       buf_len := samples, bufsize := newsize\<rparr>;
                c1 = c\<lparr>buf := Some (map (garbage t) [0..<newsize])\<rparr>;
                c2 = c1\<lparr>thread_buf := Some (map (garbage t) [0..<ulong (newsize * 10)]),
                        write_sem := 0, rwrite_sem := 0, read_sem := 0, rread_sem := 0\<rparr>
            in if realloc_null t newsize then Exits 2 c
               else if realloc_null t (ulong (newsize * 10)) then Exits 2 c1
               else if realloc_null t sizeof_thread_priv_t then Exits 2 c2
               else Returns (SOX_SUCCESS,
                      c2\<lparr>read_thread := RT_first_wait, write_thread := WT_start\<rparr>))"
  using assms
  by (simp add: setup_commit_def underscore_def Let_def log_call_def lsx_malloc_def)

lemma range_limit_in_range:
  "lo \<le> hi \<Longrightarrow> lo \<le> range_limit x lo hi \<and> range_limit x lo hi \<le> hi"
  by (simp add: range_limit_def)

text \<open>
  Claim C4. In \<open>setup\<close>, for a format of the catalog, a channel count above 0 and a
  default buffer size whose eightfold fits an \<open>unsigned long\<close> (the device reporting a
  minimum that fits as well), and provided the four device calls of these lines
  succeed: the buffer length wanted is the default buffer size times 8 divided by
  the product of the bytes per sample and the channel count; the period is this length
  clamped by \<open>range_limit\<close> to the limits of the device (into the range from minimum
  to maximum, when the minimum is not above the maximum) and divided by 8; the buffer
  length is the period times 8; these are the two values passed to the period-size-near
  and buffer-size-near requests, which follow the two queries of the limits; and
  \<open>setup\<close> goes on with the test of the values the device has left.
\<close>

theorem setup_buffer_geometry:
  assumes "format s < 9" and "0 < channels s" and "bufsiz s * 8 < 2 ^ 64"
    and "snd (snd_pcm_hw_params_get_buffer_size_min dev) < 2 ^ 64"
    and "0 \<le> fst (snd_pcm_hw_params_get_buffer_size_min dev)"
    and "0 \<le> fst (snd_pcm_hw_params_get_buffer_size_max dev)"
    and "0 \<le> fst (snd_pcm_hw_params_set_period_size_near dev (period (requested dev s)))"
    and "0 \<le> fst (snd_pcm_hw_params_set_buffer_size_near dev (buf_len (requested dev s)))"
  shows "buf_len (want_buf_len s) =
           bufsiz s * 8 div (bytes (formats ! format s) * channels s) \<and>
         period (requested dev s) =
           range_limit (buf_len (want_buf_len s))
             (snd (snd_pcm_hw_params_get_buffer_size_min dev))
             (snd (snd_pcm_hw_params_get_buffer_size_max dev)) div 8 \<and>
         (snd (snd_pcm_hw_params_get_buffer_size_min dev)
            \<le> snd (snd_pcm_hw_params_get_buffer_size_max dev) \<longrightarrow>
          snd (snd_pcm_hw_params_get_buffer_size_min dev)
            \<le> range_limit (buf_len (want_buf_len s))
                 (snd (snd_pcm_hw_params_get_buffer_size_min dev))
                 (snd (snd_pcm_hw_params_get_buffer_size_max dev)) \<and>
          range_limit (buf_len (want_buf_len s))
            (snd (snd_pcm_hw_params_get_buffer_size_min dev))
            (snd (snd_pcm_hw_params_get_buffer_size_max dev))
            \<le> snd (snd_pcm_hw_params_get_buffer_size_max dev)) \<and>
         buf_len (requested dev s) = period (requested dev s) * 8 \<and>
         calls (negotiated dev s) =
           calls s @
             [Snd_pcm_hw_params_get_buffer_size_min, Snd_pcm_hw_params_get_buffer_size_max,
              Snd_pcm_hw_params_set_period_size_near (period (requested dev s)),
              Snd_pcm_hw_params_set_buffer_size_near (buf_len (requested dev s))] \<and>
         setup_buffers dev s =
           (if buf_len (negotiated dev s) < ulong (period (negotiated dev s) * 2)
            then setup_error False True
                   (lsx_fail_errno (negotiated dev s) SOX_EPERM Buffer_too_small)
            else setup_commit dev (negotiated dev s))"
proof -
  note w = want_buf_len_value [OF assms(3)]
  note r = requested_values [OF assms(3) assms(4)]
  note n = negotiated_values(3) [of dev s]
  note t = setup_buffers_reaches_test [OF assms(1) assms(2) assms(5) assms(6) assms(7) assms(8)]
  from w r n t range_limit_in_range show ?thesis by simp
qed

lemma closed_session_fields:
  "format closed_session = 2" "channels closed_session = 2" "bufsiz closed_session = 8192"
  "calls closed_session = []"
  by (simp_all add: closed_session_def)

lemma accepting_device_fields:
  "snd_pcm_hw_params_get_buffer_size_min accepting_device = (0, 64)"
  "snd_pcm_hw_params_get_buffer_size_max accepting_device = (0, 2048)"
  "snd_pcm_hw_params_set_period_size_near accepting_device n = (0, n)"
  "snd_pcm_hw_params_set_buffer_size_near accepting_device n = (0, n)"
  "snd_pcm_hw_params accepting_device = 0"
  "snd_pcm_prepare accepting_device = 0"
  by (simp_all add: accepting_device_def)

lemma small_buffer_device_fields:
  "snd_pcm_hw_params_get_buffer_size_min small_buffer_device = (0, 64)"
  "snd_pcm_hw_params_get_buffer_size_max small_buffer_device = (0, 2048)"
  "snd_pcm_hw_params_set_period_size_near small_buffer_device n = (0, n)"
  "snd_pcm_hw_params_set_buffer_size_near small_buffer_device n = (0, 300)"
  "snd_pcm_hw_params small_buffer_device = 0"
  "snd_pcm_prepare small_buffer_device = 0"
  by (simp_all add: small_buffer_device_def accepting_device_def)

lemma bytes_S16: "bytes (formats ! 2) = 2"
  by (simp add: formats_def)

theorem setup_buffer_geometry_witness:
  "buf_len (want_buf_len closed_session) = 8192 * 8 div (2 * 2) \<and>
   period (requested accepting_device closed_session) = 256 \<and>
   buf_len (requested accepting_device closed_session) = 2048 \<and>
   (64::nat) \<le> 256 \<and> (256::nat) \<le> 2048 \<and> (64::nat) \<le> 2048 \<and> (256::nat) * 2 \<le> 2048 \<and>
   calls (negotiated accepting_device closed_session) =
     [Snd_pcm_hw_params_get_buffer_size_min, Snd_pcm_hw_params_get_buffer_size_max,
      Snd_pcm_hw_params_set_period_size_near 256, Snd_pcm_hw_params_set_buffer_size_near 2048]"
proof -
  have h: "format closed_session < 9" "0 < channels closed_session"
    "bufsiz closed_session * 8 < 2 ^ 64"
    "snd (snd_pcm_hw_params_get_buffer_size_min accepting_device) < 2 ^ 64"
    "0 \<le> fst (snd_pcm_hw_params_get_buffer_size_min accepting_device)"
    "0 \<le> fst (snd_pcm_hw_params_get_buffer_size_max accepting_device)"
    "0 \<le> fst (snd_pcm_hw_params_set_period_size_near accepting_device
                (period (requested accepting_device closed_session)))"
    "0 \<le> fst (snd_pcm_hw_params_set_buffer_size_near accepting_device
                (buf_len (requested accepting_device closed_session)))"
    by (simp_all add: closed_session_fields accepting_device_fields)
  note g = setup_buffer_geometry [OF h]
  from g have a: "buf_len (want_buf_len closed_session) = 8192 * 8 div (2 * 2)"
    by (simp add: closed_session_fields bytes_S16)
  from g a have b: "period (requested accepting_device closed_session) = 256"
    by (simp add: accepting_device_fields range_limit_def)
  from g b have c: "buf_len (requested accepting_device closed_session) = 2048"
    by simp
  from g b c have d: "calls (negotiated accepting_device closed_session) =
     [Snd_pcm_hw_params_get_buffer_size_min, Snd_pcm_hw_params_get_buffer_size_max,
      Snd_pcm_hw_params_set_period_size_near 256, Snd_pcm_hw_params_set_buffer_size_near 2048]"
    by (simp add: closed_session_fields)
  from a b c d show ?thesis by simp
qed

text \<open>
  Claim C5. When \<open>setup\<close> has come through the period-size-near and buffer-size-near
  requests (a format of the catalog, a channel count above 0, the four device calls of
  lines 225 to 231 successful) and twice the final period fits an \<open>unsigned long\<close>:
  if twice the final period exceeds the final buffer size, \<open>setup\<close> records the error
  \<open>SOX_EPERM\<close> with the text ``buffer too small'', frees the parameter object and
  returns \<open>SOX_EOF\<close>, and the only call it has made after the two requests is that
  release, so the hardware parameters are not committed. Otherwise it goes on to the
  commit: it calls \<open>snd_pcm_hw_params\<close> and releases the parameter object; if the
  commit has failed it returns \<open>SOX_EOF\<close> with that error recorded; if not it calls
  \<open>snd_pcm_prepare\<close>, and returns \<open>SOX_EOF\<close> with that error recorded if the
  device cannot be prepared; and with both successful it turns the buffer length into
  samples and bytes, allocates the two buffers and the thread argument (the process
  ends with status 2, after these three calls, exactly if one of the three
  allocations gives a null pointer), resets the four semaphores, creates both threads
  and returns \<open>SOX_SUCCESS\<close>.
\<close>

theorem setup_buffer_too_small:
  assumes "format s < 9" and "0 < channels s"
    and "0 \<le> fst (snd_pcm_hw_params_get_buffer_size_min dev)"
    and "0 \<le> fst (snd_pcm_hw_params_get_buffer_size_max dev)"
    and "0 \<le> fst (snd_pcm_hw_params_set_period_size_near dev (period (requested dev s)))"
    and "0 \<le> fst (snd_pcm_hw_params_set_buffer_size_near dev (buf_len (requested dev s)))"
    and "period (negotiated dev s) * 2 < 2 ^ 64"
  shows "(buf_len (negotiated dev s) < period (negotiated dev s) * 2 \<longrightarrow>
            setup_buffers dev s =
              Returns (SOX_EOF,
                (negotiated dev s)\<lparr>sox_errno := SOX_EPERM, sox_errstr := Buffer_too_small,
                   calls := calls (negotiated dev s) @ [Snd_pcm_hw_params_free]\<rparr>)) \<and>
         (period (negotiated dev s) * 2 \<le> buf_len (negotiated dev s) \<longrightarrow>
            setup_buffers dev s = setup_commit dev (negotiated dev s) \<and>
            (snd_pcm_hw_params dev < 0 \<longrightarrow>
               setup_buffers dev s =
                 Returns (SOX_EOF,
                   (negotiated dev s)\<lparr>sox_errno := SOX_EPERM,
                      sox_errstr := Call_error ''snd_pcm_hw_params'' (snd_pcm_hw_params dev),
                      calls := calls (negotiated dev s) @
                        [Snd_pcm_hw_params, Snd_pcm_hw_params_free]\<rparr>)) \<and>
            (0 \<le> snd_pcm_hw_params dev \<longrightarrow> snd_pcm_prepare dev < 0 \<longrightarrow>
               setup_buffers dev s =
                 Returns (SOX_EOF,
                   (negotiated dev s)\<lparr>sox_errno := SOX_EPERM,
                      sox_errstr := Call_error ''snd_pcm_prepare'' (snd_pcm_prepare dev),
                      calls := calls (negotiated dev s) @
                        [Snd_pcm_hw_params, Snd_pcm_hw_params_free, Snd_pcm_prepare]\<rparr>)) \<and>
            (0 \<le> snd_pcm_hw_params dev \<longrightarrow> 0 \<le> snd_pcm_prepare dev \<longrightarrow>
               setup_buffers dev s =
                 (let t = negotiated dev s;
                      samples = ulong (buf_len t * channels t);
                      newsize = ulong (samples * bytes (formats ! format t));
                      c = t\<lparr>calls := calls t @
                                   [Snd_pcm_hw_params, Snd_pcm_hw_params_free, Snd_pcm_prepare],
                             buf_len := samples, bufsize := newsize\<rparr>;
                      c1 = c\<lparr>buf := Some (map (garbage t) [0..<newsize])\<rparr>;
                      c2 = c1\<lparr>thread_buf := Some (map (garbage t) [0..<ulong (newsize * 10)]),
                              write_sem := 0, rwrite_sem := 0, read_sem := 0, rread_sem := 0\<rparr>
                  in if realloc_null t newsize then Exits 2 c
                     else if realloc_null t (ulong (newsize * 10)) then Exits 2 c1
                     else if realloc_null t sizeof_thread_priv_t then Exits 2 c2
                     else Returns (SOX_SUCCESS,
                            c2\<lparr>read_thread := RT_first_wait, write_thread := WT_start\<rparr>))))"
proof -
  note t = setup_buffers_reaches_test [OF assms(1) assms(2) assms(3) assms(4) assms(5) assms(6)]
  have u: "ulong (period (negotiated dev s) * 2) = period (negotiated dev s) * 2"
    by (rule ulong_id [OF assms(7)])
  have small: "setup_buffers dev s =
              Returns (SOX_EOF,
                (negotiated dev s)\<lparr>sox_errno := SOX_EPERM, sox_errstr := Buffer_too_small,
                   calls := calls (negotiated dev s) @ [Snd_pcm_hw_params_free]\<rparr>)"
    if "buf_len (negotiated dev s) < period (negotiated dev s) * 2"
    using that by (simp add: t u setup_error_def lsx_fail_errno_def log_call_def)
  have ok: "setup_buffers dev s = setup_commit dev (negotiated dev s)"
    if "period (negotiated dev s) * 2 \<le> buf_len (negotiated dev s)"
    using that by (simp add: t u)
  have c1: "setup_buffers dev s =
                 Returns (SOX_EOF,
                   (negotiated dev s)\<lparr>sox_errno := SOX_EPERM,
                      sox_errstr := Call_error ''snd_pcm_hw_params'' (snd_pcm_hw_params dev),
                      calls := calls (negotiated dev s) @
                        [Snd_pcm_hw_params, Snd_pcm_hw_params_free]\<rparr>)"
    if "period (negotiated dev s) * 2 \<le> buf_len (negotiated dev s)"
      and "snd_pcm_hw_params dev < 0"
    using ok [OF that(1)] setup_commit_hw_params_fails [OF that(2), of "negotiated dev s"]
    by (simp only:)
  have c2: "setup_buffers dev s =
                 Returns (SOX_EOF,
                   (negotiated dev s)\<lparr>sox_errno := SOX_EPERM,
                      sox_errstr := Call_error ''snd_pcm_prepare'' (snd_pcm_prepare dev),
                      calls := calls (negotiated dev s) @
                        [Snd_pcm_hw_params, Snd_pcm_hw_params_free, Snd_pcm_prepare]\<rparr>)"
    if "period (negotiated dev s) * 2 \<le> buf_len (negotiated dev s)"
      and "0 \<le> snd_pcm_hw_params dev" and "snd_pcm_prepare dev < 0"
    using ok [OF that(1)]
      setup_commit_prepare_fails [OF that(2) that(3), of "negotiated dev s"]
    by (simp only:)
  have c3: "setup_buffers dev s =
                 (let t = negotiated dev s;
                      samples = ulong (buf_len t * channels t);
                      newsize = ulong (samples * bytes (formats ! format t));
                      c = t\<lparr>calls := calls t @
                                   [Snd_pcm_hw_params, Snd_pcm_hw_params_free, Snd_pcm_prepare],
                             buf_len := samples, bufsize := newsize\<rparr>;
                      c1 = c\<lparr>buf := Some (map (garbage t) [0..<newsize])\<rparr>;
                      c2 = c1\<lparr>thread_buf := Some (map (garbage t) [0..<ulong (newsize * 10)]),
                              write_sem := 0, rwrite_sem := 0, read_sem := 0, rread_sem := 0\<rparr>
                  in if realloc_null t newsize then Exits 2 c
                     else if realloc_null t (ulong (newsize * 10)) then Exits 2 c1
                     else if realloc_null t sizeof_thread_priv_t then Exits 2 c2
                     else Returns (SOX_SUCCESS,
                            c2\<lparr>read_thread := RT_first_wait, write_thread := WT_start\<rparr>))"
    if "period (negotiated dev s) * 2 \<le> buf_len (negotiated dev s)"
      and "0 \<le> snd_pcm_hw_params dev" and "0 \<le> snd_pcm_prepare dev"
    using ok [OF that(1)] setup_commit_proceeds [OF that(2) that(3), of "negotiated dev s"]
    by (simp only: Let_def)
  from small ok c1 c2 c3 show ?thesis by blast
qed

theorem setup_buffer_too_small_witness:
  "setup_buffers small_buffer_device closed_session =
     Returns (SOX_EOF,
       (negotiated small_buffer_device closed_session)
         \<lparr>sox_errno := SOX_EPERM, sox_errstr := Buffer_too_small,
          calls := [Snd_pcm_hw_params_get_buffer_size_min, Snd_pcm_hw_params_get_buffer_size_max,
                    Snd_pcm_hw_params_set_period_size_near 256,
                    Snd_pcm_hw_params_set_buffer_size_near 2048,
                    Snd_pcm_hw_params_free]\<rparr>) \<and>
   period (negotiated small_buffer_device closed_session) = 256 \<and>
   buf_len (negotiated small_buffer_device closed_session) = 300 \<and>
   period (negotiated accepting_device closed_session) = 256 \<and>
   buf_len (negotiated accepting_device closed_session) = 2048 \<and>
   setup_buffers accepting_device closed_session =
     Returns (SOX_SUCCESS,
       (negotiated accepting_device closed_session)
         \<lparr>calls := [Snd_pcm_hw_params_get_buffer_size_min, Snd_pcm_hw_params_get_buffer_size_max,
                    Snd_pcm_hw_params_set_period_size_near 256,
                    Snd_pcm_hw_params_set_buffer_size_near 2048,
                    Snd_pcm_hw_params, Snd_pcm_hw_params_free, Snd_pcm_prepare],
          buf_len := 4096, bufsize := 8192,
          buf := Some (replicate 8192 0), thread_buf := Some (replicate 81920 0),
          write_sem := 0, rwrite_sem := 0, read_sem := 0, rread_sem := 0,
          read_thread := RT_first_wait, write_thread := WT_start\<rparr>)"
proof -
  have r1: "period (requested small_buffer_device closed_session) = 256"
    "buf_len (requested small_buffer_device closed_session) = 2048"
    "calls (requested small_buffer_device closed_session) =
       [Snd_pcm_hw_params_get_buffer_size_min, Snd_pcm_hw_params_get_buffer_size_max]"
    using requested_values [of closed_session small_buffer_device]
    by (simp_all add: closed_session_fields small_buffer_device_fields bytes_S16 range_limit_def)
  have n1: "period (negotiated small_buffer_device closed_session) = 256"
    "buf_len (negotiated small_buffer_device closed_session) = 300"
    "calls (negotiated small_buffer_device closed_session) =
       [Snd_pcm_hw_params_get_buffer_size_min, Snd_pcm_hw_params_get_buffer_size_max,
        Snd_pcm_hw_params_set_period_size_near 256, Snd_pcm_hw_params_set_buffer_size_near 2048]"
    using negotiated_values [of small_buffer_device closed_session]
    by (simp_all add: r1 small_buffer_device_fields)
  have r2: "period (requested accepting_device closed_session) = 256"
    "buf_len (requested accepting_device closed_session) = 2048"
    "calls (requested accepting_device closed_session) =
       [Snd_pcm_hw_params_get_buffer_size_min, Snd_pcm_hw_params_get_buffer_size_max]"
    using requested_values [of closed_session accepting_device]
    by (simp_all add: closed_session_fields accepting_device_fields bytes_S16 range_limit_def)
  have n2: "period (negotiated accepting_device closed_session) = 256"
    "buf_len (negotiated accepting_device closed_session) = 2048"
    "calls (negotiated accepting_device closed_session) =
       [Snd_pcm_hw_params_get_buffer_size_min, Snd_pcm_hw_params_get_buffer_size_max,
        Snd_pcm_hw_params_set_period_size_near 256, Snd_pcm_hw_params_set_buffer_size_near 2048]"
    using negotiated_values [of accepting_device closed_session]
    by (simp_all add: r2 accepting_device_fields)
  have k2: "channels (negotiated accepting_device closed_session) = 2"
    "format (negotiated accepting_device closed_session) = 2"
    "garbage (negotiated accepting_device closed_session) = (\<lambda>i. 0)"
    "realloc_null (negotiated accepting_device closed_session) = (\<lambda>n. False)"
    by (simp_all add: negotiated_def requested_def derive_period_def want_buf_len_def
        log_call_def Let_def closed_session_def)
  have h1: "format closed_session < 9" "0 < channels closed_session"
    "0 \<le> fst (snd_pcm_hw_params_get_buffer_size_min small_buffer_device)"
    "0 \<le> fst (snd_pcm_hw_params_get_buffer_size_max small_buffer_device)"
    "0 \<le> fst (snd_pcm_hw_params_set_period_size_near small_buffer_device
                (period (requested small_buffer_device closed_session)))"
    "0 \<le> fst (snd_pcm_hw_params_set_buffer_size_near small_buffer_device
                (buf_len (requested small_buffer_device closed_session)))"
    "period (negotiated small_buffer_device closed_session) * 2 < 2 ^ 64"
    by (simp_all add: closed_session_fields small_buffer_device_fields n1)
  have h2: "format closed_session < 9" "0 < channels closed_session"
    "0 \<le> fst (snd_pcm_hw_params_get_buffer_size_min accepting_device)"
    "0 \<le> fst (snd_pcm_hw_params_get_buffer_size_max accepting_device)"
    "0 \<le> fst (snd_pcm_hw_params_set_period_size_near accepting_device
                (period (requested accepting_device closed_session)))"
    "0 \<le> fst (snd_pcm_hw_params_set_buffer_size_near accepting_device
                (buf_len (requested accepting_device closed_session)))"
    "period (negotiated accepting_device closed_session) * 2 < 2 ^ 64"
    by (simp_all add: closed_session_fields accepting_device_fields n2)
  from setup_buffer_too_small [OF h1, THEN conjunct1] n1
  have a: "setup_buffers small_buffer_device closed_session =
     Returns (SOX_EOF,
       (negotiated small_buffer_device closed_session)
         \<lparr>sox_errno := SOX_EPERM, sox_errstr := Buffer_too_small,
          calls := [Snd_pcm_hw_params_get_buffer_size_min, Snd_pcm_hw_params_get_buffer_size_max,
                    Snd_pcm_hw_params_set_period_size_near 256,
                    Snd_pcm_hw_params_set_buffer_size_near 2048,
                    Snd_pcm_hw_params_free]\<rparr>)"
    by simp
  have z: "map (\<lambda>i. 0 :: byte) [0..<n] = replicate n 0" for n
    by (simp add: map_replicate_const)
  have le: "period (negotiated accepting_device closed_session) * 2
              \<le> buf_len (negotiated accepting_device closed_session)"
    by (simp add: n2)
  from setup_buffer_too_small [OF h2, THEN conjunct2, THEN mp, OF le,
      THEN conjunct2, THEN conjunct2, THEN conjunct2] n2
  have b: "setup_buffers accepting_device closed_session =
     Returns (SOX_SUCCESS,
       (negotiated accepting_device closed_session)
         \<lparr>calls := [Snd_pcm_hw_params_get_buffer_size_min, Snd_pcm_hw_params_get_buffer_size_max,
                    Snd_pcm_hw_params_set_period_size_near 256,
                    Snd_pcm_hw_params_set_buffer_size_near 2048,
                    Snd_pcm_hw_params, Snd_pcm_hw_params_free, Snd_pcm_prepare],
          buf_len := 4096, bufsize := 8192,
          buf := Some (replicate 8192 0), thread_buf := Some (replicate 81920 0),
          write_sem := 0, rwrite_sem := 0, read_sem := 0, rread_sem := 0,
          read_thread := RT_first_wait, write_thread := WT_start\<rparr>)"
    by (simp add: accepting_device_fields k2 Let_def ulong_def bytes_S16 z)
  from a b n1 n2 show ?thesis by simp
qed

section \<open>Properties of the streaming pipeline\<close>

subsection \<open>What the worker threads leave alone\<close>

lemma resume_loop_frame:
  "resume_loop rs s = Some (e, s', rs') \<Longrightarrow>
   buf s' = buf s \<and> thread_buf s' = thread_buf s \<and> same_geometry s s' \<and>
   write_sem s' = write_sem s \<and> rwrite_sem s' = rwrite_sem s \<and>
   read_sem s' = read_sem s \<and> rread_sem s' = rread_sem s \<and>
   write_len s' = write_len s \<and> read_len s' = read_len s \<and>
   write_thread s' = write_thread s \<and> read_thread s' = read_thread s"
proof (induction rs arbitrary: s)
  case Nil
  then show ?case by simp
next
  case (Cons r rs)
  show ?case
  proof (cases "fst r = - EAGAIN")
    case True
    with Cons.prems have "resume_loop rs (log_call Snd_pcm_resume s) = Some (e, s', rs')"
      by simp
    from Cons.IH [OF this] show ?thesis by (simp add: log_call_def same_geometry_def)
  next
    case False
    with Cons.prems show ?thesis by (auto simp add: log_call_def same_geometry_def)
  qed
qed

lemma recover_frame:
  assumes "recover rs s err = Some (e, s', rs')"
  shows "buf s' = buf s \<and> thread_buf s' = thread_buf s \<and> same_geometry s s' \<and>
   write_sem s' = write_sem s \<and> rwrite_sem s' = rwrite_sem s \<and>
   read_sem s' = read_sem s \<and> rread_sem s' = rread_sem s \<and>
   write_len s' = write_len s \<and> read_len s' = read_len s \<and>
   write_thread s' = write_thread s \<and> read_thread s' = read_thread s"
proof -
  have refl: "same_geometry s s" by (simp add: same_geometry_def)
  show ?thesis
  proof (cases "err = - EPIPE \<or> err \<noteq> - ESTRPIPE")
    case True
    with assms refl show ?thesis
      by (auto simp add: recover_def Let_def log_call_def lsx_fail_errno_def same_geometry_def
          split: if_splits list.splits)
  next
    case False
    then have e: "err \<noteq> - EPIPE" "err = - ESTRPIPE" by simp_all
    from assms e obtain e1 s1 rs1 where r: "resume_loop rs s = Some (e1, s1, rs1)"
      by (auto simp add: recover_def split: option.splits)
    note f = resume_loop_frame [OF r]
    from assms e r have "s' = s1 \<or>
        s' = log_call (Snd_pcm_recover e1) s1 \<or>
        (\<exists>x. s' = lsx_fail_errno (log_call (Snd_pcm_recover e1) s1) SOX_EPERM x)"
      by (auto simp add: recover_def Let_def split: if_splits list.splits)
    with f show ?thesis
      by (auto simp add: log_call_def lsx_fail_errno_def same_geometry_def)
  qed
qed

lemma send_block_frame:
  "send_block n i rs s = Sent s' \<or> send_block n i rs s = Gave_up s' \<Longrightarrow>
   buf s' = buf s \<and> thread_buf s' = thread_buf s \<and> same_geometry s s' \<and>
   write_sem s' = write_sem s \<and> rwrite_sem s' = rwrite_sem s \<and>
   read_sem s' = read_sem s \<and> rread_sem s' = rread_sem s \<and>
   write_len s' = write_len s \<and> read_len s' = read_len s \<and>
   write_thread s' = write_thread s \<and> read_thread s' = read_thread s"
proof (induction n i rs s rule: send_block.induct)
  case (1 n i rs s)
  show ?case
  proof (cases "i < n")
    case False
    with 1(4) show ?thesis by (simp add: send_block.simps [of n i] same_geometry_def)
  next
    case lt: True
    show ?thesis
    proof (cases "channels s = 0")
      case True
      with lt 1(4) show ?thesis by (simp add: send_block.simps [of n i])
    next
      case ch: False
      show ?thesis
      proof (cases rs)
        case Nil
        with lt ch 1(4) show ?thesis by (simp add: send_block.simps [of n i])
      next
        case (Cons r rs1)
        define s1 where "s1 = log_call (Snd_pcm_writei (i * bytes (formats ! format s))
                                      ((n - i) div channels s)) s"
        have s1: "buf s1 = buf s \<and> thread_buf s1 = thread_buf s \<and> same_geometry s s1 \<and>
           write_sem s1 = write_sem s \<and> rwrite_sem s1 = rwrite_sem s \<and>
           read_sem s1 = read_sem s \<and> rread_sem s1 = rread_sem s \<and>
           write_len s1 = write_len s \<and> read_len s1 = read_len s \<and>
           write_thread s1 = write_thread s \<and> read_thread s1 = read_thread s"
          by (simp add: s1_def log_call_def same_geometry_def)
        consider (again) "fst r = - EAGAIN"
          | (err) "fst r \<noteq> - EAGAIN" "fst r < 0"
          | (ok) "fst r \<noteq> - EAGAIN" "\<not> fst r < 0" by blast
        then show ?thesis
        proof cases
          case again
          with lt ch Cons 1(4)
          have "send_block n i rs1 s1 = Sent s' \<or> send_block n i rs1 s1 = Gave_up s'"
            by (simp add: send_block.simps [of n i "r # rs1"] s1_def Let_def)
          from 1(1) [OF lt ch Cons s1_def refl again this] s1 show ?thesis
            by (simp add: same_geometry_def)
        next
          case err
          show ?thesis
          proof (cases "recover rs1 s1 (fst r)")
            case None
            with lt ch Cons err 1(4) show ?thesis
              by (simp add: send_block.simps [of n i "r # rs1"] s1_def Let_def)
          next
            case (Some res)
            obtain e s2 rs2 where res: "res = (e, s2, rs2)" by (cases res) auto
            note f = recover_frame [OF Some [unfolded res]]
            show ?thesis
            proof (cases "e < 0")
              case True
              with lt ch Cons err Some res 1(4) have "s' = s2"
                by (simp add: send_block.simps [of n i "r # rs1"] s1_def Let_def)
              with f s1 show ?thesis by (simp add: same_geometry_def)
            next
              case False
              with lt ch Cons err Some res 1(4)
              have "send_block n i rs2 s2 = Sent s' \<or> send_block n i rs2 s2 = Gave_up s'"
                by (simp add: send_block.simps [of n i "r # rs1"] s1_def Let_def)
              from 1(2) [OF lt ch Cons s1_def refl err(1) err(2) Some [unfolded res] refl refl False this]
                f s1
              show ?thesis by (simp add: same_geometry_def)
            qed
          qed
        next
          case ok
          with lt ch Cons 1(4)
          have "send_block n (i + nat (fst r) * channels s) rs1 s1 = Sent s' \<or>
                send_block n (i + nat (fst r) * channels s) rs1 s1 = Gave_up s'"
            by (simp add: send_block.simps [of n i "r # rs1"] s1_def Let_def)
          from 1(3) [OF lt ch Cons s1_def refl ok(1) ok(2) this] s1 show ?thesis
            by (simp add: same_geometry_def)
        qed
      qed
    qed
  qed
qed

lemma same_geometry_refl: "same_geometry s s"
  by (simp add: same_geometry_def)

lemma same_geometry_trans: "same_geometry s t \<Longrightarrow> same_geometry t u \<Longrightarrow> same_geometry s u"
  by (simp add: same_geometry_def)

lemma write_thread_step_frame:
  assumes "write_thread_step rs s = Returns s'"
  shows "buf s' = buf s \<and> thread_buf s' = thread_buf s \<and> same_geometry s s' \<and>
         read_sem s' = read_sem s \<and> rread_sem s' = rread_sem s \<and>
         write_len s' = write_len s \<and> read_len s' = read_len s \<and>
         read_thread s' = read_thread s"
proof (cases "write_thread s")
  case WT_sending
  show ?thesis
  proof (cases "send_block (write_len s) 0 rs s")
    case (Sent s1)
    with assms WT_sending
    have "s' = s1\<lparr>write_sem := write_sem s1 + 1, write_thread := WT_waiting\<rparr>"
      by (simp add: write_thread_step_def)
    with send_block_frame [of "write_len s" 0 rs s s1] Sent show ?thesis
      by (simp add: same_geometry_def)
  next
    case (Gave_up s1)
    with assms WT_sending have "s' = s1\<lparr>write_thread := WT_returned\<rparr>"
      by (simp add: write_thread_step_def)
    with send_block_frame [of "write_len s" 0 rs s s1] Gave_up show ?thesis
      by (simp add: same_geometry_def)
  next
    case Still_sending
    with assms WT_sending show ?thesis by (simp add: write_thread_step_def)
  next
    case Send_undefined
    with assms WT_sending show ?thesis by (simp add: write_thread_step_def)
  qed
qed (use assms in \<open>auto simp add: write_thread_step_def same_geometry_def split: if_splits\<close>)

lemma read_block_frame:
  "read_block len rs s = Some (Some s') \<Longrightarrow>
   buf s' = buf s \<and> same_geometry s s' \<and>
   write_sem s' = write_sem s \<and> rwrite_sem s' = rwrite_sem s \<and>
   read_sem s' = read_sem s \<and> rread_sem s' = rread_sem s \<and>
   write_len s' = write_len s \<and> read_len s' = read_len s \<and>
   write_thread s' = write_thread s \<and> read_thread s' = read_thread s"
proof (induction len rs s rule: read_block.induct)
  case (1 len rs s)
  show ?case
  proof (cases rs)
    case Nil
    with 1(3) show ?thesis by (simp add: read_block.simps [of len "[]"])
  next
    case (Cons r rs1)
    show ?thesis
    proof (cases "thread_buf s")
      case None
      with Cons 1(3) show ?thesis by (simp add: read_block.simps [of len "r # rs1"])
    next
      case (Some tb)
      define s1 where "s1 = log_call (Snd_pcm_readi len) s"
      have s1: "buf s1 = buf s \<and> same_geometry s s1 \<and>
           write_sem s1 = write_sem s \<and> rwrite_sem s1 = rwrite_sem s \<and>
           read_sem s1 = read_sem s \<and> rread_sem s1 = rread_sem s \<and>
           write_len s1 = write_len s \<and> read_len s1 = read_len s \<and>
           write_thread s1 = write_thread s \<and> read_thread s1 = read_thread s"
        by (simp add: s1_def log_call_def same_geometry_def)
      consider (err) "fst r < 0" | (zero) "\<not> fst r < 0" "fst r \<le> 0"
        | (data) "\<not> fst r < 0" "\<not> fst r \<le> 0" by blast
      then show ?thesis
      proof cases
        case err
        show ?thesis
        proof (cases "recover rs1 s1 (fst r)")
          case None
          with Cons Some err 1(3) show ?thesis
            by (simp add: read_block.simps [of len "r # rs1"] s1_def Let_def)
        next
          case rec: (Some res)
          obtain e s2 rs2 where res: "res = (e, s2, rs2)" by (cases res) auto
          note f = recover_frame [OF rec [unfolded res]]
          show ?thesis
          proof (cases "e < 0")
            case True
            with Cons Some err rec res 1(3) have "s' = s2"
              by (simp add: read_block.simps [of len "r # rs1"] s1_def Let_def)
            with f s1 show ?thesis by (simp add: same_geometry_def)
          next
            case False
            with Cons Some err rec res 1(3)
            have "read_block len rs2 s2 = Some (Some s')"
              by (simp add: read_block.simps [of len "r # rs1"] s1_def Let_def)
            from 1(1) [OF Cons Some s1_def refl err rec [unfolded res] refl refl False this] f s1
            show ?thesis by (simp add: same_geometry_def)
          qed
        qed
      next
        case zero
        with Cons Some 1(3) have "read_block len rs1 s1 = Some (Some s')"
          by (simp add: read_block.simps [of len "r # rs1"] s1_def Let_def)
        from 1(2) [OF Cons Some s1_def refl zero this] s1 show ?thesis
          by (simp add: same_geometry_def)
      next
        case data
        with Cons Some 1(3)
        have "s' = s1\<lparr>thread_buf := Some (take (length tb) (snd r) @ drop (length (snd r)) tb)\<rparr>"
          by (simp add: read_block.simps [of len "r # rs1"] s1_def Let_def)
        with s1 show ?thesis by (simp add: same_geometry_def)
      qed
    qed
  qed
qed

lemma read_thread_step_frame:
  assumes "read_thread_step rs s = Returns s'"
  shows "same_geometry s s' \<and>
         write_sem s' = write_sem s \<and> rwrite_sem s' = rwrite_sem s \<and>
         write_len s' = write_len s \<and> read_len s' = read_len s \<and>
         write_thread s' = write_thread s"
proof (cases "read_thread s")
  case RT_reading
  with assms obtain s1 where r: "read_block (read_len s div channels s) rs s = Some (Some s1)"
    and s': "s' = s1\<lparr>read_thread := RT_holding\<rparr>"
    by (auto simp add: read_thread_step_def split: if_splits option.splits)
  from read_block_frame [OF r] s' show ?thesis by (simp add: same_geometry_def)
qed (use assms in \<open>auto simp add: read_thread_step_def same_geometry_def
       split: if_splits option.splits\<close>)

lemma worker_step_frame:
  assumes "worker_step e s = Returns s'"
  shows "same_geometry s s' \<and> write_len s' = write_len s \<and> read_len s' = read_len s"
  using assms write_thread_step_frame read_thread_step_frame
  by (cases e) auto

lemma run_workers_frame:
  "run_workers es s = Returns s' \<Longrightarrow>
   same_geometry s s' \<and> write_len s' = write_len s \<and> read_len s' = read_len s"
proof (induction es arbitrary: s)
  case Nil
  then show ?case by (simp add: same_geometry_refl)
next
  case (Cons e es)
  show ?case
  proof (cases "worker_step e s")
    case (Returns s1)
    with Cons.prems have b: "run_workers es s1 = Returns s'" by simp
    from worker_step_frame [OF Returns] Cons.IH [OF b] show ?thesis
      by (auto intro: same_geometry_trans)
  next
    case Blocks
    with Cons.prems have b: "run_workers es s = Returns s'" by simp
    from Cons.IH [OF b] show ?thesis .
  next
    case Undefined
    with Cons.prems show ?thesis by simp
  next
    case (Exits c x)
    with Cons.prems show ?thesis by simp
  qed
qed

lemma run_workers_never_blocks: "run_workers es s \<noteq> Blocks"
  by (induction es arbitrary: s) (auto split: outcome.splits)

subsection \<open>Decoding a block\<close>

lemma decode_loop_length:
  "decode_loop get w n b = Some xs \<Longrightarrow> length xs = n"
proof (induction n arbitrary: b xs)
  case 0
  then show ?case by simp
next
  case (Suc n)
  then show ?case by (auto split: option.splits)
qed

lemma decode_loop_take:
  assumes loc: "\<And>bs. get (take w bs) = get bs"
  shows "decode_loop get w n (take (n * w) b) = decode_loop get w n b"
proof (induction n arbitrary: b)
  case 0
  show ?case by simp
next
  case (Suc n)
  have "get (take (Suc n * w) b) = get (take w (take (Suc n * w) b))"
    by (rule loc [symmetric])
  also have "take w (take (Suc n * w) b) = take w b" by (simp add: min_def)
  also have "get (take w b) = get b" by (rule loc)
  finally have g: "get (take (Suc n * w) b) = get b" .
  have d: "drop w (take (Suc n * w) b) = take (n * w) (drop w b)"
    by (simp add: drop_take)
  show ?case by (simp only: decode_loop.simps g d Suc.IH)
qed

lemma decode_loop_total:
  assumes tot: "\<And>bs. w \<le> length bs \<Longrightarrow> get bs \<noteq> None"
  shows "n * w \<le> length b \<Longrightarrow> \<exists>xs. decode_loop get w n b = Some xs"
proof (induction n arbitrary: b)
  case 0
  show ?case by simp
next
  case (Suc n)
  then have "w \<le> length b" "n * w \<le> length (drop w b)" by simp_all
  with tot [of b] Suc.IH [of "drop w b"] show ?case by auto
qed

lemma load8_local: "load8 (take (Suc 0) bs) = load8 bs"
  by (induction bs rule: load8.induct) simp_all

lemma load16_local: "load16 h (take 2 bs) = load16 h bs"
  by (induction h bs rule: load16.induct) simp_all

lemma load32_local: "load32 h (take 4 bs) = load32 h bs"
  by (induction h bs rule: load32.induct) simp_all

lemma get_S24_3LE_local: "get_S24_3LE (take 3 bs) = get_S24_3LE bs"
  by (induction bs rule: get_S24_3LE.induct) simp_all

lemma load8_total: "1 \<le> length bs \<Longrightarrow> load8 bs \<noteq> None"
  by (induction bs rule: load8.induct) simp_all

lemma load16_total: "2 \<le> length bs \<Longrightarrow> load16 h bs \<noteq> None"
  by (induction h bs rule: load16.induct) simp_all

lemma load32_total: "4 \<le> length bs \<Longrightarrow> load32 h bs \<noteq> None"
  by (induction h bs rule: load32.induct) simp_all

lemma get_S24_3LE_total: "3 \<le> length bs \<Longrightarrow> get_S24_3LE bs \<noteq> None"
  by (induction bs rule: get_S24_3LE.induct) simp_all

lemma decode_sample_local:
  assumes "decode_sample hb rb f = Some get"
  shows "get (take (element_size f) bs) = get bs"
  using assms
  by (cases f)
    (auto simp add: get_S8_def get_U8_def get_S16_def get_U16_def get_S24_def get_U24_def
      get_S32_def get_U32_def load8_local load16_local load32_local get_S24_3LE_local
      simp del: get_S24_3LE.simps)

lemma decode_sample_total:
  assumes "decode_sample hb rb f = Some get" "element_size f \<le> length bs"
  shows "get bs \<noteq> None"
  using assms load8_total [of bs] load16_total [of bs] load32_total [of bs]
    get_S24_3LE_total [of bs]
  by (cases f)
    (auto simp add: get_S8_def get_U8_def get_S16_def get_U16_def get_S24_def get_U24_def
      get_S32_def get_U32_def simp del: get_S24_3LE.simps)

subsection \<open>read\_\<close>

lemma read_prime_frame:
  "same_geometry s (read_prime s len) \<and> buf (read_prime s len) = buf s"
  by (simp add: read_prime_def same_geometry_def)

lemma read_thread_step_buf_length:
  assumes "read_thread_step rs s = Returns s'"
  shows "map_option length (buf s') = map_option length (buf s)"
proof (cases "read_thread s")
  case RT_reading
  with assms obtain s1 where r: "read_block (read_len s div channels s) rs s = Some (Some s1)"
    and s': "s' = s1\<lparr>read_thread := RT_holding\<rparr>"
    by (auto simp add: read_thread_step_def split: if_splits option.splits)
  from read_block_frame [OF r] s' show ?thesis by simp
next
  case RT_holding
  with assms show ?thesis
    by (auto simp add: read_thread_step_def memcpy_def split: if_splits option.splits)
qed (use assms in \<open>auto simp add: read_thread_step_def split: if_splits\<close>)

lemma run_workers_buf_length:
  "run_workers es s = Returns s' \<Longrightarrow> map_option length (buf s') = map_option length (buf s)"
proof (induction es arbitrary: s)
  case Nil
  then show ?case by simp
next
  case (Cons e es)
  show ?case
  proof (cases "worker_step e s")
    case (Returns s1)
    with Cons.prems have b: "run_workers es s1 = Returns s'" by simp
    have "map_option length (buf s1) = map_option length (buf s)"
      using Returns read_thread_step_buf_length write_thread_step_frame by (cases e) auto
    with Cons.IH [OF b] show ?thesis by simp
  next
    case Blocks
    with Cons.prems have b: "run_workers es s = Returns s'" by simp
    from Cons.IH [OF b] show ?thesis .
  next
    case Undefined
    with Cons.prems show ?thesis by simp
  next
    case (Exits c x)
    with Cons.prems show ?thesis by simp
  qed
qed

lemma conversion_buffer_ok_preserved:
  assumes "conversion_buffer_ok s" "same_geometry s s'"
    "map_option length (buf s') = map_option length (buf s)"
  shows "conversion_buffer_ok s'"
  using assms
  by (auto simp add: conversion_buffer_ok_def same_geometry_def split: option.splits)

text \<open>
  Claim C10. A call of \<open>read_\<close> that returns has waited until ``data ready'' was
  posted, and then: with a format of the catalog it returns the smaller of the length
  asked for and the buffer length in samples, together with exactly that many samples,
  which are decoded from the first that-many elements of the conversion buffer, so a
  caller that asks for more than the buffer holds gets one buffer's worth; in the
  branch for an invalid format it returns 0 and records \<open>SOX_EFMT\<close>. And the call does
  return as soon as ``data ready'' has been posted, when the conversion buffer is the
  one \<open>setup\<close> allocated.
\<close>

theorem read_returns_min:
  "(alsa_read sched s len = Returns (r, xs, s') \<longrightarrow>
      (\<exists>s2. run_workers sched (read_prime s (min len (buf_len s))) = Returns s2 \<and>
            0 < read_sem s2 \<and>
            (case decode_sample (host_be s) (reverse_bytes s) (alsa_fmt (formats ! format s)) of
               None \<Rightarrow> r = 0 \<and> xs = [] \<and> sox_errno s' = SOX_EFMT
             | Some get \<Rightarrow>
                 r = min len (buf_len s) \<and> length xs = r \<and>
                 (\<exists>b. buf s2 = Some b \<and>
                      decode_loop get (element_size (alsa_fmt (formats ! format s))) r
                        (take (r * element_size (alsa_fmt (formats ! format s))) b) = Some xs)))) \<and>
   (conversion_buffer_ok s \<longrightarrow>
    run_workers sched (read_prime s (min len (buf_len s))) = Returns t \<longrightarrow>
    0 < read_sem t \<longrightarrow>
      (\<exists>ys t'. alsa_read sched s len = Returns (min len (buf_len s), ys, t')))"
proof (intro conjI impI)
  assume ret: "alsa_read sched s len = Returns (r, xs, s')"
  let ?len = "min len (buf_len s)"
  from ret obtain s2 where w: "run_workers sched (read_prime s ?len) = Returns s2"
    by (auto simp add: alsa_read_def Let_def split: outcome.splits)
  from run_workers_frame [OF w] read_prime_frame [of s ?len]
  have g: "format s2 = format s" "host_be s2 = host_be s" "reverse_bytes s2 = reverse_bytes s"
    by (simp_all add: same_geometry_def)
  from ret w have sem: "0 < read_sem s2"
    by (auto simp add: alsa_read_def Let_def split: if_splits)
  let ?f = "alsa_fmt (formats ! format s)"
  have "case decode_sample (host_be s) (reverse_bytes s) ?f of
               None \<Rightarrow> r = 0 \<and> xs = [] \<and> sox_errno s' = SOX_EFMT
             | Some get \<Rightarrow>
                 r = ?len \<and> length xs = r \<and>
                 (\<exists>b. buf s2 = Some b \<and>
                      decode_loop get (element_size ?f) r (take (r * element_size ?f) b) = Some xs)"
  proof (cases "decode_sample (host_be s) (reverse_bytes s) ?f")
    case None
    with ret w sem g show ?thesis
      by (auto simp add: alsa_read_def Let_def lsx_fail_errno_def split: if_splits)
  next
    case (Some get)
    with ret w sem g obtain b where b: "buf s2 = Some b"
      and d: "decode_loop get (element_size ?f) ?len b = Some xs" and r: "r = ?len"
      by (auto simp add: alsa_read_def Let_def split: if_splits option.splits)
    from decode_loop_length [OF d] r have l: "length xs = r" by simp
    have "decode_loop get (element_size ?f) r (take (r * element_size ?f) b) = Some xs"
      using decode_loop_take [of get "element_size ?f" r b] decode_sample_local [OF Some] d r
      by simp
    with Some b r l show ?thesis by simp
  qed
  with w sem show "\<exists>s2. run_workers sched (read_prime s ?len) = Returns s2 \<and> 0 < read_sem s2 \<and>
            (case decode_sample (host_be s) (reverse_bytes s) ?f of
               None \<Rightarrow> r = 0 \<and> xs = [] \<and> sox_errno s' = SOX_EFMT
             | Some get \<Rightarrow>
                 r = ?len \<and> length xs = r \<and>
                 (\<exists>b. buf s2 = Some b \<and>
                      decode_loop get (element_size ?f) r (take (r * element_size ?f) b) = Some xs))"
    by blast
next
  let ?len = "min len (buf_len s)"
  let ?f = "alsa_fmt (formats ! format s)"
  assume ok: "conversion_buffer_ok s"
    and w: "run_workers sched (read_prime s ?len) = Returns t"
    and sem: "0 < read_sem t"
  from run_workers_frame [OF w] read_prime_frame [of s ?len]
  have geo: "same_geometry s t" by (auto intro: same_geometry_trans)
  then have g: "format t = format s" "host_be t = host_be s" "reverse_bytes t = reverse_bytes s"
    "buf_len t = buf_len s"
    by (simp_all add: same_geometry_def)
  from run_workers_buf_length [OF w] read_prime_frame [of s ?len]
  have "map_option length (buf t) = map_option length (buf s)" by simp
  from conversion_buffer_ok_preserved [OF ok geo this]
  obtain b where fmt: "format s < 9" and b: "buf t = Some b"
    and len: "buf_len s * bytes (formats ! format s) \<le> length b"
    by (auto simp add: conversion_buffer_ok_def g split: option.splits)
  from catalog_entry(1,3) [OF fmt] catalog_entry(4) [OF fmt, of "host_be s" "reverse_bytes s"]
  obtain get where tab: "\<not> length formats \<le> format s"
    and dec: "decode_sample (host_be s) (reverse_bytes s) ?f = Some get"
    and es: "element_size ?f = bytes (formats ! format s)"
    by auto
  have "?len * element_size ?f \<le> buf_len s * bytes (formats ! format s)"
    by (simp add: es)
  with len have "?len * element_size ?f \<le> length b" by simp
  from decode_loop_total [of "element_size ?f" get, OF decode_sample_total [OF dec] this]
  obtain ys where "decode_loop get (element_size ?f) ?len b = Some ys" by blast
  with w sem b tab dec g
  show "\<exists>ys t'. alsa_read sched s len = Returns (?len, ys, t')"
    by (simp add: alsa_read_def Let_def)
qed

lemmas example_defs = capture_session_def small_session_def closed_session_def
  ready_session_def

lemma capture_session_ok: "conversion_buffer_ok capture_session"
  by (simp add: conversion_buffer_ok_def example_defs formats_def)

lemma one_block_read_run:
  "\<exists>t. run_workers one_block_read (read_prime capture_session (min 100 (buf_len capture_session)))
         = Returns t \<and> 0 < read_sem t \<and> buf t = Some ([1, 2, 3, 4] @ replicate 4 0)"
  by (simp add: one_block_read_def read_prime_def example_defs read_thread_step_def
      read_block.simps memcpy_def log_call_def Let_def)


theorem read_returns_min_witness:
  "\<exists>ys t'. alsa_read one_block_read capture_session 100 = Returns (4, ys, t') \<and>
           length ys = 4 \<and> 4 = min 100 (buf_len capture_session)"
proof -
  from one_block_read_run obtain t where
    t: "run_workers one_block_read (read_prime capture_session (min 100 (buf_len capture_session)))
          = Returns t" "0 < read_sem t"
    by blast
  have m: "min 100 (buf_len capture_session) = 4" by (simp add: example_defs)
  from read_returns_min [of one_block_read capture_session 100, THEN conjunct2]
    capture_session_ok t
  obtain ys t' where r: "alsa_read one_block_read capture_session 100 = Returns (4, ys, t')"
    unfolding m by blast
  from read_returns_min [of one_block_read capture_session 100 4 ys t', THEN conjunct1] r
  have "length ys = 4"
    by (auto simp add: example_defs formats_def)
  with r m show ?thesis by simp
qed

subsection \<open>write\_\<close>




lemma write_never_short:
  "write_loop sched s len samples = Returns (r, s') \<Longrightarrow>
   r = len \<or> (r = 0 \<and> sox_errno s' = SOX_EFMT)"
proof (induction sched s len samples rule: write_loop.induct)
  case (1 sched s len samples)
  show ?case
  proof (cases "samples = []")
    case True
    with "1.prems" show ?thesis by (simp add: write_loop.simps [of sched s len "[]"])
  next
    case ne: False
    define n where "n = min (length samples) (buf_len s)"
    show ?thesis
    proof (cases "encode_sample (host_be s) (reverse_bytes s) (alsa_fmt (formats ! format s))")
      case None
      with ne "1.prems" show ?thesis
        by (auto simp add: write_loop.simps [of sched s len samples] Let_def lsx_fail_errno_def
            split: if_splits)
    next
      case (Some put)
      from ne Some "1.prems" obtain b encoded clips1 s2 tb s4 where
        tab: "\<not> length formats \<le> format s" and b: "buf s = Some b"
        and enc: "encode_loop put (take n samples) (clips s) = (encoded, clips1)"
        and fits: "\<not> length b < length encoded"
        and w1: "run_workers (case sched of [] \<Rightarrow> [] | es # rest \<Rightarrow> es)
                   (s\<lparr>buf := Some (encoded @ drop (length encoded) b),
                      clips := clips1, write_len := n\<rparr>) = Returns s2"
        and sem: "write_sem s2 \<noteq> 0"
        and cp: "memcpy (thread_buf s2) (buf s2) (bufsize s2) = Some tb"
        and w2: "run_workers (case drop 1 sched of [] \<Rightarrow> [] | es # rest \<Rightarrow> es)
                   (s2\<lparr>write_sem := write_sem s2 - 1, thread_buf := Some tb,
                       rwrite_sem := rwrite_sem s2 + 1\<rparr>) = Returns s4"
        and n0: "n \<noteq> 0"
        and rec: "write_loop (drop 2 sched) s4 len (drop n samples) = Returns (r, s')"
        by (auto simp add: write_loop.simps [of sched s len samples] Let_def n_def
            split: if_splits option.splits prod.splits outcome.splits)
      show ?thesis
        by (rule "1.IH" [OF ne n_def tab Some b enc [symmetric] fits refl w1 sem cp refl w2 n0 rec])
    qed
  qed
qed





subsection \<open>Failed recovery\<close>

text \<open>
  Claim C8. The session is the small playback session with \<open>write_thread\<close> waiting
  for data; \<open>write_\<close> is called with one sample; the device refuses the block with
  \<open>-EIO\<close> and \<open>snd_pcm_recover\<close> fails with \<open>-EIO\<close> as well. The thread records
  \<open>SOX_EPERM\<close> and returns, and \<open>write_\<close> returns 1, the full length asked for.
  Called with five samples instead, which are two blocks, \<open>write_\<close> hands over the
  first block and then never returns, since nobody posts ``buffer free'' again. In the
  same way \<open>read_\<close>, called for four samples on the capture session while
  \<open>snd_pcm_readi\<close> and the recovery fail, returns 4 with \<open>SOX_EPERM\<close> recorded.
\<close>

theorem failed_recovery_full_count:
  "map_option fst (returned (alsa_write [[], failing_write] ready_session [0x00010000])) = Some 1 \<and>
   map_option (write_thread \<circ> snd)
     (returned (alsa_write [[], failing_write] ready_session [0x00010000])) = Some WT_returned \<and>
   map_option (sox_errno \<circ> snd)
     (returned (alsa_write [[], failing_write] ready_session [0x00010000])) = Some SOX_EPERM \<and>
   never_returns (alsa_write [[], failing_write] ready_session [0x00010000, 0, 0, 0, 0]) \<and>
   map_option fst (returned (alsa_read failing_read capture_session 4)) = Some 4 \<and>
   map_option (sox_errno \<circ> snd \<circ> snd)
     (returned (alsa_read failing_read capture_session 4)) = Some SOX_EPERM \<and>
   map_option (read_thread \<circ> snd \<circ> snd)
     (returned (alsa_read failing_read capture_session 4)) = Some RT_reading"
  by code_simp

text \<open>
  Whatever the threads and the device do, a \<open>write_\<close> that returns returns the length
  it was called with, or 0 from the branch for an invalid format.
\<close>

lemma write_returns_len:
  "alsa_write sched s samples = Returns (r, s') \<Longrightarrow>
   r = length samples \<or> (r = 0 \<and> sox_errno s' = SOX_EFMT)"
  unfolding alsa_write_def by (rule write_never_short)

subsection \<open>stop and stop\_write\<close>

lemma stop_result:
  "stop s = (SOX_SUCCESS, s\<lparr>calls := calls s @ [Snd_pcm_close], pcm := False, buf := None\<rparr>)"
  by (simp add: stop_def log_call_def)

text \<open>
  Claim C9. \<open>stop\<close> on the small session closes the device handle, frees the
  conversion buffer and returns \<open>SOX_SUCCESS\<close>, and the transfer buffer of 80 bytes
  is still allocated afterwards.
\<close>

theorem stop_keeps_transfer_buffer:
  "fst (stop small_session) = SOX_SUCCESS \<and>
   calls (snd (stop small_session)) = [Snd_pcm_close] \<and>
   \<not> pcm (snd (stop small_session)) \<and>
   buf (snd (stop small_session)) = None \<and>
   thread_buf small_session = Some (replicate 80 0) \<and>
   thread_buf (snd (stop small_session)) = Some (replicate 80 0)"
  by (simp add: stop_result example_defs)

text \<open>For every session: \<open>stop\<close> leaves the transfer buffer as it is.\<close>

lemma stop_frame:
  "thread_buf (snd (stop s)) = thread_buf s \<and> buf (snd (stop s)) = None \<and>
   \<not> pcm (snd (stop s)) \<and> fst (stop s) = SOX_SUCCESS"
  by (simp add: stop_result)



subsection \<open>Handing over one block\<close>









subsection \<open>The padding at teardown\<close>








end
